theory Spec2Isabelle
  imports Complex_Main
begin

section \<open>Values, exceptions and remote data\<close>

text \<open>
  The two Python files are glue over a hosted vector-index service. The service and
  its client library are not part of the repository, so every remote operation is a
  parameter of the model (a field of the record \<open>remote\<close> below). What the
  repository's own code does with the answers (which calls it issues, in which order,
  which exceptions it catches, what it prints, what it counts) is translated from the
  source.

  Exceptions are the subclasses of Python's \<open>Exception\<close>: the handlers of the
  source are \<open>except AttributeError\<close> and \<open>except Exception\<close>, and only
  the distinction between \<open>AttributeError\<close> and the rest matters to them.
  \<open>sys.exit\<close> raises \<open>SystemExit\<close>, which is no \<open>Exception\<close> and passes
  every handler of the source; it is an \<open>outcome\<close>, not a \<open>py_exception\<close>.
\<close>

datatype py_exception =
    AttributeError
  | KeyError
  | ZeroDivisionError
  | EOFError
  | OtherException string

datatype outcome =
    Returned
  | SysExit int
  | Uncaught py_exception

type_synonym metadata = "(string \<times> string) list"

text \<open>One entry of a fetch response: a mapping in which the keys \<open>values\<close> and
  \<open>metadata\<close> may be missing. The vector itself is carried, never computed on, so
  its type is a parameter.\<close>

record 'v vec_data =
  vd_values :: "'v option"
  vd_metadata :: "metadata option"

text \<open>The dictionary \<open>{"id": ..., "values": ..., "metadata": ...}\<close> built by
  \<open>migrate\<close> and sent by \<open>upsert_data\<close>.\<close>

record 'v vector =
  vec_id :: string
  vec_values :: 'v
  vec_metadata :: metadata

text \<open>A fetch response: \<open>fetch_resp.get('vectors', {})\<close> reads an optional key; a
  Python dict keeps insertion order, so the mapping is an association list.\<close>

record 'v fetch_response =
  fr_vectors :: "(string \<times> 'v vec_data) list option"

text \<open>What \<open>describe_index\<close> returns and what \<open>list_indexes\<close> of the client
  iterates over: an index description with a name, a dimension, a metric and the
  \<open>status['ready']\<close> flag.\<close>

record index_model =
  im_name :: string
  im_dimension :: int
  im_metric :: string
  im_ready :: bool

text \<open>What \<open>describe_index_stats\<close> of an index returns: the per-namespace counts
  (possibly absent) and the total.\<close>

record index_stats =
  namespaces :: "(string \<times> int) list option"
  total_vector_count :: int

text \<open>The object \<open>pc.Index(name)\<close>: it is bound to the API key of the client that
  made it and to the name it was made for.\<close>

record index_handle =
  ih_api_key :: "string option"
  ih_name :: "string option"

text \<open>Python compares values of different types as unequal. \<open>x in xs\<close> on a list
  is equality with some element.\<close>

datatype py_value =
    PyNone
  | PyStr string
  | PyIndexModel index_model

definition py_str :: "string option \<Rightarrow> py_value" where
  "py_str s = (case s of None \<Rightarrow> PyNone | Some x \<Rightarrow> PyStr x)"

definition py_in :: "py_value \<Rightarrow> py_value list \<Rightarrow> bool" where
  "py_in x xs = (x \<in> set xs)"

section \<open>Output and remote calls\<close>

text \<open>One constructor for each \<open>print\<close> of the two files, with the values it
  interpolates.\<close>

datatype message =
    IndexExistsRecreating "string option"
  | IndexExistsSkipping "string option"
  | CreatingIndex "string option" int string
  | IndexCreated "string option"
  | IndexDeleted "string option"
  | IndexDoesNotExist "string option"
  | IndexFoundConnecting "string option"
  | IndexMissingCallingCreate "string option"
  | IndexSetAfterCreation "string option"
  | NoVectorsToUpsert
  | AttemptingUpsert nat "string option" string int
  | UpsertedSuccessfully nat "string option"
  | ErrorUpserting py_exception
  | ErrorDescribingStats py_exception
  | ConnectingSource string
  | SourceNotFound string "string list"
  | SourceConfig int string
  | ErrorSourceDetails py_exception
  | ConnectingDestination string
  | DestinationExists string
  | DimensionMismatch
  | MismatchSource int
  | MismatchDest int
  | DimensionsMatch
  | CouldNotVerifyDestination py_exception
  | DestinationMissing string
  | CreatingWithDefaults
  | WaitingForProvisioning
  | IndexReady
  | PreparingMigration
  | FoundNamespaces "string list"
  | TotalToMigrate int
  | StartingDataCopy
  | ProcessingNamespace string
  | ListingUnsupported
  | ErrorMigratingNamespace string py_exception
  | Traceback py_exception
  | MigrationComplete
  | TotalMigrated nat
  | MissingEnvironment
  | EnsureKeysSet
  | EnteringInteractive
  | SourceNameRequired
  | PromptSource
  | PromptDestination string

text \<open>Everything observable, in order: output, remote calls (with the API key of
  the client that makes them) and sleeps.\<close>

datatype 'v event =
    Print message
  | ListIndexes "string option"
  | DescribeIndex "string option" string
  | CreateIndex "string option" "string option" int string
  | DeleteIndex "string option" "string option"
  | OpenIndex "string option" "string option"
  | DescribeIndexStats index_handle
  | ListIds index_handle string
  | Fetch index_handle "string list" string
  | Upsert index_handle "'v vector list" string
  | Sleep nat

text \<open>The process state the code reads and writes: the log of events and
  \<open>os.environ\<close>.\<close>

record 'v world =
  events :: "'v event list"
  environ :: "string \<rightharpoonup> string"

definition emit :: "'v event \<Rightarrow> 'v world \<Rightarrow> 'v world" where
  "emit e w = w\<lparr>events := events w @ [e]\<rparr>"

definition say :: "message \<Rightarrow> 'v world \<Rightarrow> 'v world" where
  "say m w = emit (Print m) w"

text \<open>
  The remote service. Each answer may depend on everything that happened before (the
  log at the time of the call), so a service that changes its state, or fails once and
  succeeds later, is an instance. \<open>Inl\<close> is a raised exception.
  \<open>has_list\<close> says whether the index object has a \<open>list\<close> attribute at all.
  The generator returned by \<open>list\<close> is the finite sequence of pages it yields,
  followed by normal exhaustion or by an exception.
\<close>

record 'v remote =
  r_list_indexes :: "'v event list \<Rightarrow> string option \<Rightarrow> py_exception + index_model list"
  r_describe_index :: "'v event list \<Rightarrow> string option \<Rightarrow> string \<Rightarrow> py_exception + index_model"
  r_create_index :: "'v event list \<Rightarrow> string option \<Rightarrow> string option \<Rightarrow> int \<Rightarrow> string \<Rightarrow> py_exception option"
  r_delete_index :: "'v event list \<Rightarrow> string option \<Rightarrow> string option \<Rightarrow> py_exception option"
  r_Index :: "'v event list \<Rightarrow> string option \<Rightarrow> string option \<Rightarrow> py_exception option"
  r_describe_index_stats :: "'v event list \<Rightarrow> index_handle \<Rightarrow> py_exception + index_stats"
  has_list :: "index_handle \<Rightarrow> bool"
  r_list :: "'v event list \<Rightarrow> index_handle \<Rightarrow> string \<Rightarrow> string list list \<times> py_exception option"
  r_fetch :: "'v event list \<Rightarrow> index_handle \<Rightarrow> string list \<Rightarrow> string \<Rightarrow> py_exception + 'v fetch_response"
  r_upsert :: "'v event list \<Rightarrow> index_handle \<Rightarrow> 'v vector list \<Rightarrow> string \<Rightarrow> py_exception option"

section \<open>PineconeManager\<close>

text \<open>\<open>__init__\<close> reads three environment variables and starts with no cached
  index. (The OpenAI client built from the third is used by the embedding helper only,
  which is not modelled.)\<close>

record manager =
  api_key :: "string option"
  index_name :: "string option"
  openai_api_key :: "string option"
  index :: "index_handle option"

definition PineconeManager :: "'v world \<Rightarrow> manager" where
  "PineconeManager w =
     \<lparr>api_key = environ w ''PINECONE_API_KEY'',
      index_name = environ w ''PINECONE_INDEX_NAME'',
      openai_api_key = environ w ''OPENAI_API_KEY'',
      index = None\<rparr>"

text \<open>\<open>list_indexes\<close>: the names of the descriptions the client returns.\<close>

definition list_indexes ::
  "'v remote \<Rightarrow> manager \<Rightarrow> 'v world \<Rightarrow> 'v world \<times> (py_exception + string list)" where
  "list_indexes R m w =
     (let w1 = emit (ListIndexes (api_key m)) w in
      case r_list_indexes R (events w) (api_key m) of
        Inl e \<Rightarrow> (w1, Inl e)
      | Inr indexes \<Rightarrow> (w1, Inr (map im_name indexes)))"

text \<open>\<open>self.pc.Index(self.index_name)\<close>.\<close>

definition open_index ::
  "'v remote \<Rightarrow> manager \<Rightarrow> 'v world \<Rightarrow> 'v world \<times> (py_exception + index_handle)" where
  "open_index R m w =
     (let w1 = emit (OpenIndex (api_key m) (index_name m)) w in
      case r_Index R (events w) (api_key m) (index_name m) of
        Some e \<Rightarrow> (w1, Inl e)
      | None \<Rightarrow> (w1, Inr \<lparr>ih_api_key = api_key m, ih_name = index_name m\<rparr>))"

text \<open>\<open>delete_index\<close> tests the name against what \<open>self.pc.list_indexes()\<close>
  returns, the descriptions themselves.\<close>

definition delete_index ::
  "'v remote \<Rightarrow> manager \<Rightarrow> 'v world \<Rightarrow> 'v world \<times> manager \<times> py_exception option" where
  "delete_index R m w =
     (let w1 = emit (ListIndexes (api_key m)) w in
      case r_list_indexes R (events w) (api_key m) of
        Inl e \<Rightarrow> (w1, m, Some e)
      | Inr indexes \<Rightarrow>
          if py_in (py_str (index_name m)) (map PyIndexModel indexes) then
            (let w2 = emit (DeleteIndex (api_key m) (index_name m)) w1 in
             case r_delete_index R (events w1) (api_key m) (index_name m) of
               Some e \<Rightarrow> (w2, m, Some e)
             | None \<Rightarrow> (say (IndexDeleted (index_name m)) w2, m\<lparr>index := None\<rparr>, None))
          else (say (IndexDoesNotExist (index_name m)) w1, m, None))"

text \<open>The tail of \<open>create_index\<close> from the "Creating index" print on.\<close>

definition create_index_new ::
  "'v remote \<Rightarrow> manager \<Rightarrow> int \<Rightarrow> string \<Rightarrow> 'v world \<Rightarrow> 'v world \<times> manager \<times> py_exception option" where
  "create_index_new R m dimension metric w =
     (let w1 = say (CreatingIndex (index_name m) dimension metric) w;
          w2 = emit (CreateIndex (api_key m) (index_name m) dimension metric) w1 in
      case r_create_index R (events w1) (api_key m) (index_name m) dimension metric of
        Some e \<Rightarrow> (w2, m, Some e)
      | None \<Rightarrow>
          (case open_index R m w2 of
             (w3, Inl e) \<Rightarrow> (w3, m, Some e)
           | (w3, Inr h) \<Rightarrow> (say (IndexCreated (index_name m)) w3, m\<lparr>index := Some h\<rparr>, None)))"

definition create_index ::
  "'v remote \<Rightarrow> manager \<Rightarrow> int \<Rightarrow> string \<Rightarrow> bool \<Rightarrow> 'v world \<Rightarrow> 'v world \<times> manager \<times> py_exception option" where
  "create_index R m dimension metric replace_existing w =
     (case list_indexes R m w of
        (w1, Inl e) \<Rightarrow> (w1, m, Some e)
      | (w1, Inr existing_indexes) \<Rightarrow>
          if py_in (py_str (index_name m)) (map PyStr existing_indexes) then
            (if replace_existing then
               (case delete_index R m (say (IndexExistsRecreating (index_name m)) w1) of
                  (w2, m2, Some e) \<Rightarrow> (w2, m2, Some e)
                | (w2, m2, None) \<Rightarrow> create_index_new R m2 dimension metric w2)
             else
               (case open_index R m (say (IndexExistsSkipping (index_name m)) w1) of
                  (w2, Inl e) \<Rightarrow> (w2, m, Some e)
                | (w2, Inr h) \<Rightarrow> (w2, m\<lparr>index := Some h\<rparr>, None)))
          else create_index_new R m dimension metric w1)"

text \<open>\<open>get_or_create_index\<close>: the cached handle, or a lookup by name, or a
  creation with the defaults 1536 and cosine.\<close>

definition get_or_create_index ::
  "'v remote \<Rightarrow> manager \<Rightarrow> 'v world \<Rightarrow> 'v world \<times> manager \<times> (py_exception + index_handle)" where
  "get_or_create_index R m w =
     (case index m of
        Some h \<Rightarrow> (w, m, Inr h)
      | None \<Rightarrow>
          (case list_indexes R m w of
             (w1, Inl e) \<Rightarrow> (w1, m, Inl e)
           | (w1, Inr existing_indexes) \<Rightarrow>
               if py_in (py_str (index_name m)) (map PyStr existing_indexes) then
                 (case open_index R m (say (IndexFoundConnecting (index_name m)) w1) of
                    (w2, Inl e) \<Rightarrow> (w2, m, Inl e)
                  | (w2, Inr h) \<Rightarrow> (w2, m\<lparr>index := Some h\<rparr>, Inr h))
               else
                 (case create_index R m 1536 ''cosine'' False
                         (say (IndexMissingCallingCreate (index_name m)) w1) of
                    (w2, m2, Some e) \<Rightarrow> (w2, m2, Inl e)
                  | (w2, m2, None) \<Rightarrow>
                      (case open_index R m2 w2 of
                         (w3, Inl e) \<Rightarrow> (w3, m2, Inl e)
                       | (w3, Inr h) \<Rightarrow>
                           (say (IndexSetAfterCreation (index_name m2)) w3,
                            m2\<lparr>index := Some h\<rparr>, Inr h)))))"

text \<open>\<open>xs[s:e]\<close> for indices that are not negative.\<close>

definition py_slice :: "'a list \<Rightarrow> nat \<Rightarrow> nat \<Rightarrow> 'a list" where
  "py_slice xs s e = take (e - s) (drop s xs)"

text \<open>\<open>math.ceil(len(vectors) / batch_size)\<close>: the division raises on zero; the
  ceiling of the quotient is the negated floor of the negated quotient. (The source
  divides in floating point, which is exact for list lengths below \<open>2^53\<close>.)\<close>

definition num_batches :: "nat \<Rightarrow> int \<Rightarrow> py_exception + int" where
  "num_batches n batch_size =
     (if batch_size = 0 then Inl ZeroDivisionError
      else Inr (- ((- int n) div batch_size)))"

text \<open>The loop of \<open>upsert_data\<close> over \<open>range(num_batches)\<close>: one remote call per
  index, stopped by the first exception. (Inside the loop the indices and the batch
  size are positive, so the slice bounds are not negative.)\<close>

fun upsert_batches ::
  "'v remote \<Rightarrow> index_handle \<Rightarrow> 'v vector list \<Rightarrow> string \<Rightarrow> int \<Rightarrow> nat list \<Rightarrow> 'v world
     \<Rightarrow> 'v world \<times> py_exception option" where
  "upsert_batches R h vectors ns batch_size [] w = (w, None)"
| "upsert_batches R h vectors ns batch_size (i # rest) w =
     (let start_idx = int i * batch_size;
          end_idx = min ((int i + 1) * batch_size) (int (length vectors));
          batch = py_slice vectors (nat start_idx) (nat end_idx);
          w1 = emit (Upsert h batch ns) w in
      case r_upsert R (events w) h batch ns of
        Some e \<Rightarrow> (w1, Some e)
      | None \<Rightarrow> upsert_batches R h vectors ns batch_size rest w1)"

text \<open>The \<open>try\<close> block of \<open>upsert_data\<close>.\<close>

definition upsert_data_body ::
  "'v remote \<Rightarrow> manager \<Rightarrow> 'v vector list \<Rightarrow> string \<Rightarrow> int \<Rightarrow> 'v world
     \<Rightarrow> 'v world \<times> manager \<times> py_exception option" where
  "upsert_data_body R m vectors ns batch_size w =
     (case get_or_create_index R m w of
        (w1, m1, Inl e) \<Rightarrow> (w1, m1, Some e)
      | (w1, m1, Inr h) \<Rightarrow>
          (case num_batches (length vectors) batch_size of
             Inl e \<Rightarrow> (w1, m1, Some e)
           | Inr n \<Rightarrow>
               (case upsert_batches R h vectors ns batch_size [0..<nat n] w1 of
                  (w2, Some e) \<Rightarrow> (w2, m1, Some e)
                | (w2, None) \<Rightarrow>
                    (say (UpsertedSuccessfully (length vectors) (index_name m1)) w2, m1, None))))"

text \<open>\<open>upsert_data\<close>: nothing for an empty list; otherwise the \<open>try\<close> block,
  with every exception printed and dropped.\<close>

definition upsert_data ::
  "'v remote \<Rightarrow> manager \<Rightarrow> 'v vector list \<Rightarrow> string \<Rightarrow> int \<Rightarrow> 'v world \<Rightarrow> 'v world \<times> manager" where
  "upsert_data R m vectors ns batch_size w =
     (if vectors = [] then (say NoVectorsToUpsert w, m)
      else
        (case upsert_data_body R m vectors ns batch_size
                (say (AttemptingUpsert (length vectors) (index_name m) ns batch_size) w) of
           (w1, m1, Some e) \<Rightarrow> (say (ErrorUpserting e) w1, m1)
         | (w1, m1, None) \<Rightarrow> (w1, m1)))"

text \<open>\<open>describe_index_stats\<close>: \<open>None\<close> on any exception.\<close>

definition describe_index_stats ::
  "'v remote \<Rightarrow> manager \<Rightarrow> 'v world \<Rightarrow> 'v world \<times> manager \<times> index_stats option" where
  "describe_index_stats R m w =
     (case get_or_create_index R m w of
        (w1, m1, Inl e) \<Rightarrow> (say (ErrorDescribingStats e) w1, m1, None)
      | (w1, m1, Inr h) \<Rightarrow>
          (let w2 = emit (DescribeIndexStats h) w1 in
           case r_describe_index_stats R (events w1) h of
             Inl e \<Rightarrow> (say (ErrorDescribingStats e) w2, m1, None)
           | Inr stats \<Rightarrow> (w2, m1, Some stats)))"

section \<open>migrate\<close>

definition set_credentials :: "string \<Rightarrow> string \<Rightarrow> 'v world \<Rightarrow> 'v world" where
  "set_credentials key name w =
     w\<lparr>environ := (environ w)(''PINECONE_API_KEY'' \<mapsto> key, ''PINECONE_INDEX_NAME'' \<mapsto> name)\<rparr>"

text \<open>Phase 1. The result is the source manager, the source dimension and metric and
  the raw index object.\<close>

definition connect_source ::
  "'v remote \<Rightarrow> string \<Rightarrow> string \<Rightarrow> 'v world
     \<Rightarrow> 'v world \<times> (outcome + manager \<times> int \<times> string \<times> index_handle)" where
  "connect_source R source_key source_index_name w =
     (let w1 = set_credentials source_key source_index_name
                 (say (ConnectingSource source_index_name) w);
          source_mgr = PineconeManager w1 in
      case list_indexes R source_mgr w1 of
        (w2, Inl e) \<Rightarrow> (w2, Inl (Uncaught e))
      | (w2, Inr available_indexes) \<Rightarrow>
          if source_index_name \<notin> set available_indexes then
            (say (SourceNotFound source_index_name available_indexes) w2, Inl (SysExit 1))
          else
            (let w3 = emit (DescribeIndex (api_key source_mgr) source_index_name) w2 in
             case r_describe_index R (events w2) (api_key source_mgr) source_index_name of
               Inl e \<Rightarrow> (say (ErrorSourceDetails e) w3, Inl (SysExit 1))
             | Inr source_desc \<Rightarrow>
                 (case get_or_create_index R source_mgr
                         (say (SourceConfig (im_dimension source_desc) (im_metric source_desc)) w3) of
                    (w4, m4, Inl e) \<Rightarrow> (w4, Inl (Uncaught e))
                  | (w4, m4, Inr source_index_obj) \<Rightarrow>
                      (w4, Inr (m4, im_dimension source_desc, im_metric source_desc,
                                source_index_obj)))))"

text \<open>The readiness loop of phase 2 has no bound in the source. The model counts the
  polls it may make: \<open>None\<close> is a loop that has not ended within them.\<close>

fun wait_ready ::
  "nat \<Rightarrow> 'v remote \<Rightarrow> manager \<Rightarrow> string \<Rightarrow> 'v world \<Rightarrow> ('v world \<times> py_exception option) option" where
  "wait_ready 0 R m name w = None"
| "wait_ready (Suc fuel) R m name w =
     (let w1 = emit (DescribeIndex (api_key m) name) w in
      case r_describe_index R (events w) (api_key m) name of
        Inl e \<Rightarrow> Some (w1, Some e)
      | Inr d \<Rightarrow>
          if im_ready d then Some (w1, None)
          else wait_ready fuel R m name (emit (Sleep 2) (say WaitingForProvisioning w1)))"

text \<open>Phase 2. \<open>sys.exit(1)\<close> inside the \<open>try\<close> passes the \<open>except Exception\<close>
  of the dimension check.\<close>

definition connect_destination ::
  "nat \<Rightarrow> 'v remote \<Rightarrow> string \<Rightarrow> string \<Rightarrow> int \<Rightarrow> string \<Rightarrow> 'v world
     \<Rightarrow> ('v world \<times> (outcome + manager)) option" where
  "connect_destination fuel R dest_key dest_index_name source_dim source_metric w =
     (let w1 = set_credentials dest_key dest_index_name
                 (say (ConnectingDestination dest_index_name) w);
          dest_mgr = PineconeManager w1 in
      case list_indexes R dest_mgr w1 of
        (w2, Inl e) \<Rightarrow> Some (w2, Inl (Uncaught e))
      | (w2, Inr dest_indexes) \<Rightarrow>
          if dest_index_name \<in> set dest_indexes then
            (let w3 = say (DestinationExists dest_index_name) w2;
                 w4 = emit (DescribeIndex (api_key dest_mgr) dest_index_name) w3 in
             case r_describe_index R (events w3) (api_key dest_mgr) dest_index_name of
               Inl e \<Rightarrow> Some (say (CouldNotVerifyDestination e) w4, Inr dest_mgr)
             | Inr dest_desc \<Rightarrow>
                 if im_dimension dest_desc \<noteq> source_dim then
                   Some (say (MismatchDest (im_dimension dest_desc))
                          (say (MismatchSource source_dim) (say DimensionMismatch w4)),
                         Inl (SysExit 1))
                 else Some (say DimensionsMatch w4, Inr dest_mgr))
          else
            (case create_index R dest_mgr source_dim source_metric False
                    (say CreatingWithDefaults (say (DestinationMissing dest_index_name) w2)) of
               (w3, m3, Some e) \<Rightarrow> Some (w3, Inl (Uncaught e))
             | (w3, m3, None) \<Rightarrow>
                 (case wait_ready fuel R m3 dest_index_name w3 of
                    None \<Rightarrow> None
                  | Some (w4, Some e) \<Rightarrow> Some (w4, Inl (Uncaught e))
                  | Some (w4, None) \<Rightarrow> Some (say IndexReady w4, Inr m3))))"

text \<open>Phase 3, lines 96 to 101: the namespace list from the statistics. The first
  line guards against \<open>None\<close>; the second reads \<open>total_vector_count\<close> of the
  statistics without a guard.\<close>

definition enumerate_namespaces :: "index_stats option \<Rightarrow> py_exception + string list" where
  "enumerate_namespaces source_stats =
     (let namespaces0 =
            (case source_stats of
               None \<Rightarrow> []
             | Some s \<Rightarrow>
                 (case namespaces s of
                    None \<Rightarrow> []
                  | Some d \<Rightarrow> if d \<noteq> [] then map fst d else [])) in
      case source_stats of
        None \<Rightarrow> Inl AttributeError
      | Some s \<Rightarrow>
          if total_vector_count s > 0 \<and> namespaces0 = [] then Inr [''''] else Inr namespaces0)"

definition prepare_migration ::
  "'v remote \<Rightarrow> manager \<Rightarrow> 'v world \<Rightarrow> 'v world \<times> manager \<times> (outcome + string list)" where
  "prepare_migration R source_mgr w =
     (case describe_index_stats R source_mgr (say PreparingMigration w) of
        (w1, m1, source_stats) \<Rightarrow>
          (case enumerate_namespaces source_stats of
             Inl e \<Rightarrow> (w1, m1, Inl (Uncaught e))
           | Inr nss \<Rightarrow>
               (let w2 = say (FoundNamespaces nss) w1 in
                case source_stats of
                  None \<Rightarrow> (w2, m1, Inl (Uncaught AttributeError))
                | Some s \<Rightarrow> (say (TotalToMigrate (total_vector_count s)) w2, m1, Inr nss))))"

text \<open>Phase 4. The state of the copy loop: the world, the destination manager (whose
  cached index \<open>upsert_data\<close> may set) and the running total.\<close>

record 'v transfer_state =
  t_world :: "'v world"
  t_dest :: manager
  total_migrated :: nat

definition tell :: "message \<Rightarrow> 'v transfer_state \<Rightarrow> 'v transfer_state" where
  "tell m st = st\<lparr>t_world := say m (t_world st)\<rparr>"

text \<open>The inner loop over \<open>vectors_map.items()\<close>: \<open>vec_data['values']\<close> raises
  \<open>KeyError\<close> when the key is missing, \<open>vec_data.get('metadata', {})\<close> does
  not.\<close>

fun batch_of :: "(string \<times> 'v vec_data) list \<Rightarrow> py_exception + 'v vector list" where
  "batch_of [] = Inr []"
| "batch_of ((vid, vec_data) # rest) =
     (case vd_values vec_data of
        None \<Rightarrow> Inl KeyError
      | Some vals \<Rightarrow>
          (case batch_of rest of
             Inl e \<Rightarrow> Inl e
           | Inr batch_data \<Rightarrow>
               Inr (\<lparr>vec_id = vid, vec_values = vals,
                     vec_metadata = (case vd_metadata vec_data of None \<Rightarrow> [] | Some md \<Rightarrow> md)\<rparr>
                    # batch_data)))"

text \<open>The body of the loop over the id pages, for one page.\<close>

definition transfer_page ::
  "'v remote \<Rightarrow> index_handle \<Rightarrow> string \<Rightarrow> string list \<Rightarrow> 'v transfer_state
     \<Rightarrow> 'v transfer_state \<times> py_exception option" where
  "transfer_page R source_index_obj ns id_page st =
     (if id_page = [] then (st, None)
      else
        (let w1 = emit (Fetch source_index_obj id_page ns) (t_world st) in
         case r_fetch R (events (t_world st)) source_index_obj id_page ns of
           Inl e \<Rightarrow> (st\<lparr>t_world := w1\<rparr>, Some e)
         | Inr fetch_resp \<Rightarrow>
             (case batch_of (case fr_vectors fetch_resp of None \<Rightarrow> [] | Some d \<Rightarrow> d) of
                Inl e \<Rightarrow> (st\<lparr>t_world := w1\<rparr>, Some e)
              | Inr batch_data \<Rightarrow>
                  if batch_data \<noteq> [] then
                    (case upsert_data R (t_dest st) batch_data ns (int (length batch_data)) w1 of
                       (w2, m2) \<Rightarrow>
                         (\<lparr>t_world = w2, t_dest = m2,
                           total_migrated = total_migrated st + length batch_data\<rparr>, None))
                  else (st\<lparr>t_world := w1\<rparr>, None))))"

fun transfer_pages ::
  "'v remote \<Rightarrow> index_handle \<Rightarrow> string \<Rightarrow> string list list \<Rightarrow> 'v transfer_state
     \<Rightarrow> 'v transfer_state \<times> py_exception option" where
  "transfer_pages R source_index_obj ns [] st = (st, None)"
| "transfer_pages R source_index_obj ns (id_page # pages) st =
     (case transfer_page R source_index_obj ns id_page st of
        (st1, Some e) \<Rightarrow> (st1, Some e)
      | (st1, None) \<Rightarrow> transfer_pages R source_index_obj ns pages st1)"

text \<open>The \<open>try\<close> block for one namespace: looking up \<open>list\<close> on the index object
  raises \<open>AttributeError\<close> when there is no such attribute; the generator may end
  with an exception after its last page.\<close>

definition transfer_namespace ::
  "'v remote \<Rightarrow> index_handle \<Rightarrow> string \<Rightarrow> 'v transfer_state
     \<Rightarrow> 'v transfer_state \<times> py_exception option" where
  "transfer_namespace R source_index_obj ns st =
     (if \<not> has_list R source_index_obj then (st, Some AttributeError)
      else
        (case r_list R (events (t_world st)) source_index_obj ns of
           (pages, finish) \<Rightarrow>
             (case transfer_pages R source_index_obj ns pages
                     (st\<lparr>t_world := emit (ListIds source_index_obj ns) (t_world st)\<rparr>) of
                (st1, Some e) \<Rightarrow> (st1, Some e)
              | (st1, None) \<Rightarrow> (st1, finish))))"

definition ns_label :: "string \<Rightarrow> string" where
  "ns_label ns = (if ns \<noteq> [] then ns else ''(default)'')"

text \<open>The loop over the namespaces with its two handlers: \<open>AttributeError\<close>
  breaks out of the loop, any other exception is printed and the loop goes on.\<close>

fun transfer_loop ::
  "'v remote \<Rightarrow> index_handle \<Rightarrow> string list \<Rightarrow> 'v transfer_state \<Rightarrow> 'v transfer_state" where
  "transfer_loop R source_index_obj [] st = st"
| "transfer_loop R source_index_obj (ns # rest) st =
     (case transfer_namespace R source_index_obj ns (tell (ProcessingNamespace (ns_label ns)) st) of
        (st1, None) \<Rightarrow> transfer_loop R source_index_obj rest st1
      | (st1, Some e) \<Rightarrow>
          if e = AttributeError then tell ListingUnsupported st1
          else transfer_loop R source_index_obj rest
                 (tell (Traceback e) (tell (ErrorMigratingNamespace (ns_label ns) e) st1)))"

text \<open>Phase 4 as a whole: the copy loop and the two closing prints.\<close>

definition migrate_transfer ::
  "'v remote \<Rightarrow> index_handle \<Rightarrow> manager \<Rightarrow> string list \<Rightarrow> 'v world \<Rightarrow> 'v world" where
  "migrate_transfer R source_index_obj dest_mgr nss w =
     (let st = transfer_loop R source_index_obj nss
                 \<lparr>t_world = say StartingDataCopy w, t_dest = dest_mgr, total_migrated = 0\<rparr> in
      say (TotalMigrated (total_migrated st)) (say MigrationComplete (t_world st)))"

text \<open>\<open>migrate\<close>. Only \<open>sys.exit\<close> and an exception outside every \<open>try\<close> end it
  early. \<open>None\<close> is a readiness loop that has not ended within \<open>fuel\<close> polls.\<close>

definition migrate ::
  "nat \<Rightarrow> 'v remote \<Rightarrow> string \<Rightarrow> string \<Rightarrow> string \<Rightarrow> string \<Rightarrow> 'v world
     \<Rightarrow> ('v world \<times> outcome) option" where
  "migrate fuel R source_key source_index_name dest_key dest_index_name w =
     (case connect_source R source_key source_index_name w of
        (w1, Inl out) \<Rightarrow> Some (w1, out)
      | (w1, Inr (source_mgr, source_dim, source_metric, source_index_obj)) \<Rightarrow>
          (case connect_destination fuel R dest_key dest_index_name source_dim source_metric w1 of
             None \<Rightarrow> None
           | Some (w2, Inl out) \<Rightarrow> Some (w2, out)
           | Some (w2, Inr dest_mgr) \<Rightarrow>
               (case prepare_migration R source_mgr w2 of
                  (w3, m3, Inl out) \<Rightarrow> Some (w3, out)
                | (w3, m3, Inr nss) \<Rightarrow>
                    Some (migrate_transfer R source_index_obj dest_mgr nss w3, Returned))))"

section \<open>main\<close>

text \<open>\<open>str.strip()\<close> on the ASCII whitespace characters (a \<open>string\<close> here is a
  list of bytes).\<close>

definition is_space :: "char \<Rightarrow> bool" where
  "is_space c =
     (c \<in> {CHR 0x20, CHR 0x09, CHR 0x0A, CHR 0x0B, CHR 0x0C, CHR 0x0D,
            CHR 0x1C, CHR 0x1D, CHR 0x1E, CHR 0x1F})"

definition strip :: "string \<Rightarrow> string" where
  "strip s = rev (dropWhile is_space (rev (dropWhile is_space s)))"

text \<open>\<open>os.environ.get(name, "").replace('"', '').replace("'", "").strip()\<close>.\<close>

definition clean_key :: "string option \<Rightarrow> string" where
  "clean_key v =
     strip (filter (\<lambda>c. c \<noteq> CHR 0x27)
              (filter (\<lambda>c. c \<noteq> CHR 0x22) (case v of None \<Rightarrow> [] | Some s \<Rightarrow> s)))"

text \<open>\<open>main\<close>, given \<open>sys.argv\<close> and the lines \<open>input()\<close> will read (it raises
  \<open>EOFError\<close> when there is none). Returning from \<open>main\<close> ends the process with
  exit code 0.\<close>

definition main ::
  "nat \<Rightarrow> 'v remote \<Rightarrow> string list \<Rightarrow> string list \<Rightarrow> 'v world \<Rightarrow> ('v world \<times> outcome) option" where
  "main fuel R argv stdin w =
     (let source_key = clean_key (environ w ''PINECONE_SOURCE_API_KEY'');
          dest_key = clean_key (environ w ''PINECONE_DEST_API_KEY'') in
      if source_key = [] \<or> dest_key = [] then
        Some (say EnsureKeysSet (say MissingEnvironment w), SysExit 1)
      else if length argv < 2 then
        (let w1 = say PromptSource (say EnteringInteractive w) in
         case stdin of
           [] \<Rightarrow> Some (w1, Uncaught EOFError)
         | line1 # stdin1 \<Rightarrow>
             if strip line1 = [] then Some (say SourceNameRequired w1, SysExit 1)
             else
               (let source_idx = strip line1;
                    w2 = say (PromptDestination source_idx) w1 in
                case stdin1 of
                  [] \<Rightarrow> Some (w2, Uncaught EOFError)
                | line2 # stdin2 \<Rightarrow>
                    migrate fuel R source_key source_idx dest_key
                      (if strip line2 = [] then source_idx else strip line2) w2))
      else
        migrate fuel R source_key (argv ! 1) dest_key
          (if length argv > 2 then argv ! 2 else argv ! 1) w)"

section \<open>Observations on a run\<close>

text \<open>The messages printed by the index operations of the manager (listing, opening,
  deleting, creating, looking up).\<close>

fun index_message :: "message \<Rightarrow> bool" where
  "index_message (IndexExistsRecreating n) = True"
| "index_message (IndexExistsSkipping n) = True"
| "index_message (CreatingIndex n d m) = True"
| "index_message (IndexCreated n) = True"
| "index_message (IndexDeleted n) = True"
| "index_message (IndexDoesNotExist n) = True"
| "index_message (IndexFoundConnecting n) = True"
| "index_message (IndexMissingCallingCreate n) = True"
| "index_message (IndexSetAfterCreation n) = True"
| "index_message m = False"

text \<open>The events of those operations: their messages and their calls on the client,
  none of which reads or writes records.\<close>

fun admin_event :: "'v event \<Rightarrow> bool" where
  "admin_event (Print m) = index_message m"
| "admin_event (ListIndexes k) = True"
| "admin_event (DescribeIndex k n) = True"
| "admin_event (CreateIndex k n d m) = True"
| "admin_event (DeleteIndex k n) = True"
| "admin_event (OpenIndex k n) = True"
| "admin_event (Sleep n) = True"
| "admin_event e = False"

text \<open>\<open>grows P w w'\<close>: the log of \<open>w'\<close> is the log of \<open>w\<close> followed by events
  that all satisfy \<open>P\<close>.\<close>

definition grows :: "('v event \<Rightarrow> bool) \<Rightarrow> 'v world \<Rightarrow> 'v world \<Rightarrow> bool" where
  "grows P w w' = (\<exists>xs. events w' = events w @ xs \<and> list_all P xs)"

text \<open>The index object a manager makes, and the managers whose cached object, if
  any, is that one. \<open>keeps m m1\<close>: \<open>m1\<close> has the key and name of \<open>m\<close>, and
  is well bound if \<open>m\<close> is.\<close>

definition handle_of :: "manager \<Rightarrow> index_handle" where
  "handle_of m = \<lparr>ih_api_key = api_key m, ih_name = index_name m\<rparr>"

definition bound :: "manager \<Rightarrow> bool" where
  "bound m = (index m = None \<or> index m = Some (handle_of m))"

definition keeps :: "manager \<Rightarrow> manager \<Rightarrow> bool" where
  "keeps m m1 = (api_key m1 = api_key m \<and> index_name m1 = index_name m \<and> (\<not> bound m \<or> bound m1))"

text \<open>The number of records announced by the "Attempting to upsert" line of
  \<open>upsert_data\<close>, summed over a log.\<close>

fun attempt_of :: "'v event \<Rightarrow> nat" where
  "attempt_of (Print (AttemptingUpsert k n s b)) = k"
| "attempt_of e = 0"

definition attempted_records :: "'v event list \<Rightarrow> nat" where
  "attempted_records es = sum_list (map attempt_of es)"

text \<open>The messages of \<open>upsert_data\<close>.\<close>

fun data_message :: "message \<Rightarrow> bool" where
  "data_message NoVectorsToUpsert = True"
| "data_message (AttemptingUpsert k n s b) = True"
| "data_message (UpsertedSuccessfully k n) = True"
| "data_message (ErrorUpserting e) = True"
| "data_message m = False"

text \<open>The labels of the "Processing Namespace" lines of a log, in order: the
  namespaces the copy loop has entered.\<close>

fun namespace_of :: "'v event \<Rightarrow> string list" where
  "namespace_of (Print (ProcessingNamespace l)) = [l]"
| "namespace_of e = []"

definition attempted_namespaces :: "'v event list \<Rightarrow> string list" where
  "attempted_namespaces es = concat (map namespace_of es)"

text \<open>A property of events that holds of everything the copy of one namespace can
  log, for the source object \<open>src\<close> and the destination manager \<open>m\<close>.\<close>

definition transfer_closed :: "('v event \<Rightarrow> bool) \<Rightarrow> index_handle \<Rightarrow> manager \<Rightarrow> bool" where
  "transfer_closed P src m =
     ((\<forall>e. admin_event e \<longrightarrow> P e) \<and> (\<forall>msg. data_message msg \<longrightarrow> P (Print msg)) \<and>
      (\<forall>ids ns. P (Fetch src ids ns)) \<and> (\<forall>ns. P (ListIds src ns)) \<and>
      (\<forall>h b ns. h = handle_of m \<or> \<not> bound m \<longrightarrow> P (Upsert h b ns)))"

text \<open>The messages of \<open>main\<close> and of the first three phases of \<open>migrate\<close>
  (with the one \<open>describe_index_stats\<close> prints on failure).\<close>

fun setup_message :: "message \<Rightarrow> bool" where
  "setup_message (ErrorDescribingStats e) = True"
| "setup_message (ConnectingSource n) = True"
| "setup_message (SourceNotFound n ns) = True"
| "setup_message (SourceConfig d m) = True"
| "setup_message (ErrorSourceDetails e) = True"
| "setup_message (ConnectingDestination n) = True"
| "setup_message (DestinationExists n) = True"
| "setup_message DimensionMismatch = True"
| "setup_message (MismatchSource d) = True"
| "setup_message (MismatchDest d) = True"
| "setup_message DimensionsMatch = True"
| "setup_message (CouldNotVerifyDestination e) = True"
| "setup_message (DestinationMissing n) = True"
| "setup_message CreatingWithDefaults = True"
| "setup_message WaitingForProvisioning = True"
| "setup_message IndexReady = True"
| "setup_message PreparingMigration = True"
| "setup_message (FoundNamespaces ns) = True"
| "setup_message (TotalToMigrate n) = True"
| "setup_message MissingEnvironment = True"
| "setup_message EnsureKeysSet = True"
| "setup_message EnteringInteractive = True"
| "setup_message SourceNameRequired = True"
| "setup_message PromptSource = True"
| "setup_message (PromptDestination n) = True"
| "setup_message m = False"

text \<open>The events that can occur before the copy loop starts: no listing of ids, no
  fetch and no upsert.\<close>

fun setup_event :: "'v event \<Rightarrow> bool" where
  "setup_event (Print m) = (index_message m \<or> setup_message m)"
| "setup_event (ListIds h ns) = False"
| "setup_event (Fetch h ids ns) = False"
| "setup_event (Upsert h b ns) = False"
| "setup_event e = True"

text \<open>The calls of the copy loop on the two indexes.\<close>

fun record_call :: "'v event \<Rightarrow> bool" where
  "record_call (ListIds h ns) = True"
| "record_call (Fetch h ids ns) = True"
| "record_call (Upsert h b ns) = True"
| "record_call e = False"

text \<open>The last line printed before each \<open>sys.exit(1)\<close> of the source.\<close>

fun fatal_message :: "message \<Rightarrow> bool" where
  "fatal_message EnsureKeysSet = True"
| "fatal_message SourceNameRequired = True"
| "fatal_message (SourceNotFound n ns) = True"
| "fatal_message (ErrorSourceDetails e) = True"
| "fatal_message (MismatchDest d) = True"
| "fatal_message m = False"

text \<open>A property of events that holds of everything the first three phases can
  log, apart from the reading of the statistics.\<close>

definition setup_closed :: "('v event \<Rightarrow> bool) \<Rightarrow> bool" where
  "setup_closed P = ((\<forall>e. admin_event e \<longrightarrow> P e) \<and> (\<forall>m. setup_message m \<longrightarrow> P (Print m)))"

text \<open>\<open>targets src dst\<close>: statistics, id listings and fetches go to the index
  object \<open>src\<close>, upserts to \<open>dst\<close>.\<close>

fun targets :: "index_handle \<Rightarrow> index_handle \<Rightarrow> 'v event \<Rightarrow> bool" where
  "targets src dst (DescribeIndexStats h) = (h = src)"
| "targets src dst (ListIds h ns) = (h = src)"
| "targets src dst (Fetch h ids ns) = (h = src)"
| "targets src dst (Upsert h b ns) = (h = dst)"
| "targets src dst e = True"

text \<open>The batches of the upsert calls of a log, in call order.\<close>

fun upsert_batch :: "'v event \<Rightarrow> 'v vector list list" where
  "upsert_batch (Upsert h b ns) = [b]"
| "upsert_batch e = []"

definition upsert_calls :: "'v event list \<Rightarrow> 'v vector list list" where
  "upsert_calls es = concat (map upsert_batch es)"

text \<open>The batches as the specification describes them: \<open>ceil(K/B)\<close> slices, the
  \<open>i\<close>-th from index \<open>i*B\<close> to \<open>min((i+1)*B, K)\<close>. It is compared with what
  \<open>upsert_data\<close> sends.\<close>

definition spec_batches :: "'a list \<Rightarrow> nat \<Rightarrow> 'a list list" where
  "spec_batches xs b =
     map (\<lambda>i. py_slice xs (i * b) (min ((i + 1) * b) (length xs)))
       [0..<nat \<lceil>real (length xs) / real b\<rceil>]"

section \<open>An example service\<close>

text \<open>
  A source account \<open>ks\<close> with the index \<open>src\<close> (dimension 1536) and a destination
  account \<open>kd\<close> with the index \<open>dst\<close>. The source has the namespaces \<open>A\<close>
  (two pages of one id) and \<open>B\<close> (one page of one id). The parameters choose what goes
  wrong: the exception raised when the second page of \<open>A\<close> is fetched, the exception
  raised by every upsert, whether the source index object has \<open>list\<close>, the dimension
  of the destination, and whether the statistics can be read.
\<close>

definition example_model :: "string \<Rightarrow> int \<Rightarrow> index_model" where
  "example_model name dimension =
     \<lparr>im_name = name, im_dimension = dimension, im_metric = ''cosine'', im_ready = True\<rparr>"

definition example_remote ::
  "py_exception option \<Rightarrow> py_exception option \<Rightarrow> bool \<Rightarrow> int \<Rightarrow> bool \<Rightarrow> nat remote" where
  "example_remote second_page upsert_fault listing dest_dimension stats_ok =
     \<lparr>r_list_indexes = (\<lambda>hist key.
        if key = Some ''ks'' then Inr [example_model ''src'' 1536]
        else Inr [example_model ''dst'' dest_dimension]),
      r_describe_index = (\<lambda>hist key name.
        if key = Some ''ks'' then Inr (example_model ''src'' 1536)
        else Inr (example_model ''dst'' dest_dimension)),
      r_create_index = (\<lambda>hist key name dimension metric. None),
      r_delete_index = (\<lambda>hist key name. None),
      r_Index = (\<lambda>hist key name. None),
      r_describe_index_stats = (\<lambda>hist h.
        if stats_ok then Inr \<lparr>namespaces = Some [(''A'', 2), (''B'', 1)], total_vector_count = 3\<rparr>
        else Inl (OtherException ''unavailable'')),
      has_list = (\<lambda>h. listing),
      r_list = (\<lambda>hist h ns.
        if ns = ''A'' then ([[''a1''], [''a2'']], None) else ([[''b1'']], None)),
      r_fetch = (\<lambda>hist h ids ns.
        if ids = [''a2''] then
          (case second_page of
             Some e \<Rightarrow> Inl e
           | None \<Rightarrow> Inr \<lparr>fr_vectors = Some [(''a2'', \<lparr>vd_values = Some 2, vd_metadata = None\<rparr>)]\<rparr>)
        else Inr \<lparr>fr_vectors = Some (map (\<lambda>i. (i, \<lparr>vd_values = Some 1, vd_metadata = None\<rparr>)) ids)\<rparr>),
      r_upsert = (\<lambda>hist h batch ns. upsert_fault)\<rparr>"

definition example_world :: "nat world" where
  "example_world =
     \<lparr>events = [],
      environ = [''PINECONE_SOURCE_API_KEY'' \<mapsto> ''ks'', ''PINECONE_DEST_API_KEY'' \<mapsto> '' \"kd\" '']\<rparr>"

definition example_source :: index_handle where
  "example_source = \<lparr>ih_api_key = Some ''ks'', ih_name = Some ''src''\<rparr>"

definition example_dest :: manager where
  "example_dest =
     \<lparr>api_key = Some ''kd'', index_name = Some ''dst'', openai_api_key = None, index = None\<rparr>"

definition example_state :: "nat transfer_state" where
  "example_state = \<lparr>t_world = example_world, t_dest = example_dest, total_migrated = 0\<rparr>"

definition example_source_mgr :: manager where
  "example_source_mgr =
     \<lparr>api_key = Some ''ks'', index_name = Some ''src'', openai_api_key = None,
      index = Some example_source\<rparr>"

section \<open>Lemmas\<close>

lemma grows_refl [simp]: "grows P w w"
  by (simp add: grows_def)

lemma grows_trans: "grows P w w1 \<Longrightarrow> grows P w1 w2 \<Longrightarrow> grows P w w2"
  by (auto simp: grows_def)

lemma grows_emit: "P e \<Longrightarrow> grows P w w1 \<Longrightarrow> grows P w (emit e w1)"
  by (auto simp: grows_def emit_def)

lemma grows_say: "P (Print m) \<Longrightarrow> grows P w w1 \<Longrightarrow> grows P w (say m w1)"
  by (simp add: say_def grows_emit)

lemma grows_mono: "grows P w w1 \<Longrightarrow> (\<And>e. P e \<Longrightarrow> Q e) \<Longrightarrow> grows Q w w1"
  by (auto simp: grows_def list_all_iff)

lemma list_indexes_grows:
  "list_indexes R m w = (w1, r) \<Longrightarrow> grows admin_event w0 w \<Longrightarrow> grows admin_event w0 w1"
  by (auto simp: list_indexes_def Let_def split: sum.splits intro!: grows_emit)

lemma open_index_grows:
  "open_index R m w = (w1, r) \<Longrightarrow> grows admin_event w0 w \<Longrightarrow> grows admin_event w0 w1"
  by (auto simp: open_index_def Let_def split: option.splits intro!: grows_emit)

lemma delete_index_grows:
  "delete_index R m w = (w1, r) \<Longrightarrow> grows admin_event w0 w \<Longrightarrow> grows admin_event w0 w1"
  by (auto simp: delete_index_def Let_def split: sum.splits option.splits if_splits intro!: grows_emit grows_say)

lemma create_index_new_grows:
  "create_index_new R m d mt w = (w1, r) \<Longrightarrow> grows admin_event w0 w \<Longrightarrow> grows admin_event w0 w1"
  by (auto simp: create_index_new_def Let_def split: sum.splits option.splits if_splits prod.splits
       intro!: grows_emit grows_say dest!: open_index_grows)

lemma create_index_grows:
  "create_index R m d mt rep w = (w1, r) \<Longrightarrow> grows admin_event w0 w \<Longrightarrow> grows admin_event w0 w1"
  by (auto simp: create_index_def Let_def split: sum.splits option.splits if_splits prod.splits
       intro!: grows_say
       dest!: open_index_grows list_indexes_grows delete_index_grows create_index_new_grows)

lemma get_or_create_index_grows:
  "get_or_create_index R m w = (w1, r) \<Longrightarrow> grows admin_event w0 w \<Longrightarrow> grows admin_event w0 w1"
  by (auto simp: get_or_create_index_def Let_def split: sum.splits option.splits if_splits prod.splits
       intro!: grows_say
       dest!: open_index_grows list_indexes_grows create_index_grows)

lemma keeps_refl [simp]: "keeps m m"
  by (simp add: keeps_def)

lemma keeps_trans: "keeps m m1 \<Longrightarrow> keeps m1 m2 \<Longrightarrow> keeps m m2"
  by (auto simp: keeps_def)

lemma open_index_handle: "open_index R m w = (w1, Inr h) \<Longrightarrow> h = handle_of m"
  by (auto simp: open_index_def handle_of_def Let_def split: option.splits)

lemma delete_index_keeps: "delete_index R m w = (w1, m1, r) \<Longrightarrow> keeps m m1"
  by (auto simp: delete_index_def Let_def keeps_def bound_def handle_of_def
       split: sum.splits option.splits if_splits)

lemma create_index_new_keeps: "create_index_new R m d mt w = (w1, m1, r) \<Longrightarrow> keeps m m1"
  by (auto simp: create_index_new_def Let_def keeps_def bound_def handle_of_def
       split: sum.splits option.splits if_splits prod.splits dest!: open_index_handle)

lemma create_index_keeps: "create_index R m d mt rep w = (w1, m1, r) \<Longrightarrow> keeps m m1"
  by (auto simp: create_index_def Let_def 
       split: sum.splits option.splits if_splits prod.splits
       dest!: open_index_handle delete_index_keeps create_index_new_keeps
       intro: keeps_trans)
     (auto simp: keeps_def bound_def handle_of_def)

lemma get_or_create_index_keeps:
  "get_or_create_index R m w = (w1, m1, r) \<Longrightarrow> keeps m m1"
  by (auto simp: get_or_create_index_def Let_def 
       split: sum.splits option.splits if_splits prod.splits
       dest!: open_index_handle create_index_keeps)
     (auto simp: keeps_def bound_def handle_of_def)

lemma get_or_create_index_handle:
  "get_or_create_index R m w = (w1, m1, Inr h) \<Longrightarrow> bound m \<Longrightarrow> h = handle_of m \<and> index m1 = Some h"
  by (auto simp: get_or_create_index_def Let_def 
       split: sum.splits option.splits if_splits prod.splits
       dest!: open_index_handle create_index_keeps)
     (auto simp: keeps_def bound_def handle_of_def)

lemma grows_step:
  "grows admin_event w w1 \<Longrightarrow> (\<And>e. admin_event e \<Longrightarrow> P e) \<Longrightarrow> grows P w0 w \<Longrightarrow> grows P w0 w1"
  by (meson grows_mono grows_trans)

lemma get_or_create_index_admin: "get_or_create_index R m w = (w1, r) \<Longrightarrow> grows admin_event w w1"
  by (erule get_or_create_index_grows) simp

lemma upsert_batches_grows:
  "upsert_batches R h vs ns B idxs w = (w1, r) \<Longrightarrow> (\<And>b. P (Upsert h b ns)) \<Longrightarrow> grows P w0 w
     \<Longrightarrow> grows P w0 w1"
proof (induction idxs arbitrary: w)
  case Nil
  then show ?case by simp
next
  case (Cons i idxs)
  then show ?case
    by (auto simp: Let_def split: option.splits intro!: grows_emit)
qed

lemma upsert_data_body_grows:
  assumes run: "upsert_data_body R m vs ns B w = (w1, m1, r)"
    and adm: "\<And>e. admin_event e \<Longrightarrow> P e"
    and ups: "\<And>h b. h = handle_of m \<or> \<not> bound m \<Longrightarrow> P (Upsert h b ns)"
    and ok: "\<And>k n. P (Print (UpsertedSuccessfully k n))" and g: "grows P w0 w"
  shows "grows P w0 w1 \<and> keeps m m1"
proof -
  obtain wa ma ra where goc: "get_or_create_index R m w = (wa, ma, ra)"
    by (cases "get_or_create_index R m w") auto
  have k: "keeps m ma" using goc by (rule get_or_create_index_keeps)
  have ga: "grows P w0 wa"
    using get_or_create_index_admin [OF goc] adm g by (rule grows_step)
  show ?thesis
  proof (cases ra)
    case (Inl e)
    with run goc show ?thesis using k ga by (simp add: upsert_data_body_def)
  next
    case (Inr h)
    have h: "h = handle_of m \<or> \<not> bound m" using get_or_create_index_handle goc Inr by blast
    show ?thesis
    proof (cases "num_batches (length vs) B")
      case (Inl e)
      with run goc Inr show ?thesis using k ga by (simp add: upsert_data_body_def)
    next
      case (Inr n)
      obtain wb rb where ub: "upsert_batches R h vs ns B [0..<nat n] wa = (wb, rb)"
        by (cases "upsert_batches R h vs ns B [0..<nat n] wa") auto
      have gb: "grows P w0 wb"
        using ub ups [OF h] ga by (rule upsert_batches_grows)
      show ?thesis
        using run goc \<open>ra = Inr h\<close> Inr ub k gb ok
        by (cases rb) (auto simp: upsert_data_body_def intro!: grows_say)
    qed
  qed
qed

lemma upsert_data_grows:
  assumes run: "upsert_data R m vs ns B w = (w1, m1)"
    and adm: "\<And>e. admin_event e \<Longrightarrow> P e"
    and ups: "\<And>h b. h = handle_of m \<or> \<not> bound m \<Longrightarrow> P (Upsert h b ns)"
    and dat: "\<And>msg. data_message msg \<Longrightarrow> P (Print msg)" and g: "grows P w0 w"
  shows "grows P w0 w1 \<and> keeps m m1"
proof (cases "vs = []")
  case True
  with run g dat show ?thesis by (auto simp: upsert_data_def intro!: grows_say)
next
  case False
  let ?w = "say (AttemptingUpsert (length vs) (index_name m) ns B) w"
  obtain wa ma ra where body: "upsert_data_body R m vs ns B ?w = (wa, ma, ra)"
    by (cases "upsert_data_body R m vs ns B ?w") auto
  have "grows P w0 ?w" using g dat by (auto intro!: grows_say)
  then have "grows P w0 wa \<and> keeps m ma"
    by (intro upsert_data_body_grows [where P = P, OF body] adm ups dat) simp_all
  then show ?thesis
    using run False body dat by (cases ra) (auto simp: upsert_data_def intro!: grows_say)
qed

lemma grows_attempted:
  "grows (\<lambda>e. attempt_of e = 0) w w1 \<Longrightarrow> attempted_records (events w1) = attempted_records (events w)"
  by (auto simp: grows_def attempted_records_def list_all_iff)

lemma admin_no_attempt: "admin_event e \<Longrightarrow> attempt_of e = 0"
  by (cases e rule: attempt_of.cases) auto

lemma attempted_say:
  "attempted_records (events (say m (w :: 'v world)))
     = attempted_records (events w) + attempt_of (Print m :: 'v event)"
  by (simp add: say_def emit_def attempted_records_def)

lemma attempted_emit:
  "attempted_records (events (emit e w)) = attempted_records (events w) + attempt_of e"
  by (simp add: emit_def attempted_records_def)

lemma upsert_data_attempted:
  assumes run: "upsert_data R m vs ns B w = (w1, m1)"
  shows "attempted_records (events w1) = attempted_records (events w) + length vs"
proof (cases "vs = []")
  case True
  with run show ?thesis by (auto simp: upsert_data_def attempted_say)
next
  case False
  let ?w = "say (AttemptingUpsert (length vs) (index_name m) ns B) w"
  obtain wa ma ra where body: "upsert_data_body R m vs ns B ?w = (wa, ma, ra)"
    by (cases "upsert_data_body R m vs ns B ?w") auto
  have "grows (\<lambda>e. attempt_of e = 0) ?w wa \<and> keeps m ma"
    by (rule upsert_data_body_grows [OF body]) (simp_all add: admin_no_attempt)
  then have "attempted_records (events wa) = attempted_records (events ?w)"
    by (simp add: grows_attempted)
  then show ?thesis
    using run False body by (cases ra) (auto simp: upsert_data_def attempted_say)
qed

lemma transfer_closed_keeps:
  "transfer_closed P src m \<Longrightarrow> keeps m m1 \<Longrightarrow> transfer_closed P src m1"
  by (auto simp: transfer_closed_def keeps_def handle_of_def)

lemma batch_of_error: "batch_of d = Inl e \<Longrightarrow> e = KeyError"
  by (induction d rule: batch_of.induct) (auto split: option.splits sum.splits)

lemma batch_of_length: "batch_of d = Inr b \<Longrightarrow> length b = length d"
  by (induction d arbitrary: b rule: batch_of.induct) (auto split: option.splits sum.splits)

lemma transfer_page_grows:
  assumes run: "transfer_page R src ns page st = (st1, r)"
    and tc: "transfer_closed P src (t_dest st)" and g: "grows P w0 (t_world st)"
  shows "grows P w0 (t_world st1) \<and> keeps (t_dest st) (t_dest st1)"
proof (cases "page = []")
  case True
  with run g show ?thesis by (simp add: transfer_page_def)
next
  case False
  let ?w1 = "emit (Fetch src page ns) (t_world st)"
  have g1: "grows P w0 ?w1" using tc g by (auto simp: transfer_closed_def intro!: grows_emit)
  show ?thesis
  proof (cases "r_fetch R (events (t_world st)) src page ns")
    case (Inl e)
    with run False g1 show ?thesis by (auto simp: transfer_page_def Let_def)
  next
    case (Inr resp)
    show ?thesis
    proof (cases "batch_of (case fr_vectors resp of None \<Rightarrow> [] | Some d \<Rightarrow> d)")
      case (Inl e)
      with run False Inr g1 show ?thesis by (auto simp: transfer_page_def Let_def)
    next
      case bd: (Inr batch_data)
      show ?thesis
      proof (cases "batch_data = []")
        case True
        with run False Inr bd g1 show ?thesis by (auto simp: transfer_page_def Let_def)
      next
        case ne: False
        obtain w2 m2 where up:
          "upsert_data R (t_dest st) batch_data ns (int (length batch_data)) ?w1 = (w2, m2)"
          by (cases "upsert_data R (t_dest st) batch_data ns (int (length batch_data)) ?w1") auto
        have "grows P w0 w2 \<and> keeps (t_dest st) m2"
          using tc by (intro upsert_data_grows [where P = P, OF up] g1)
                      (auto simp: transfer_closed_def)
        then show ?thesis
          using run False Inr bd ne up by (auto simp: transfer_page_def Let_def)
      qed
    qed
  qed
qed

lemma transfer_page_total:
  assumes run: "transfer_page R src ns page st = (st1, r)"
  shows "total_migrated st1 + attempted_records (events (t_world st))
           = total_migrated st + attempted_records (events (t_world st1))"
proof (cases "page = []")
  case True
  with run show ?thesis by (simp add: transfer_page_def)
next
  case False
  let ?w1 = "emit (Fetch src page ns) (t_world st)"
  have a1: "attempted_records (events ?w1) = attempted_records (events (t_world st))"
    by (simp add: attempted_emit)
  show ?thesis
  proof (cases "r_fetch R (events (t_world st)) src page ns")
    case (Inl e)
    with run False a1 show ?thesis by (auto simp: transfer_page_def Let_def)
  next
    case (Inr resp)
    show ?thesis
    proof (cases "batch_of (case fr_vectors resp of None \<Rightarrow> [] | Some d \<Rightarrow> d)")
      case (Inl e)
      with run False Inr a1 show ?thesis by (auto simp: transfer_page_def Let_def)
    next
      case bd: (Inr batch_data)
      show ?thesis
      proof (cases "batch_data = []")
        case True
        with run False Inr bd a1 show ?thesis by (auto simp: transfer_page_def Let_def)
      next
        case ne: False
        obtain w2 m2 where up:
          "upsert_data R (t_dest st) batch_data ns (int (length batch_data)) ?w1 = (w2, m2)"
          by (cases "upsert_data R (t_dest st) batch_data ns (int (length batch_data)) ?w1") auto
        have "attempted_records (events w2) = attempted_records (events ?w1) + length batch_data"
          using up by (rule upsert_data_attempted)
        then show ?thesis
          using run False Inr bd ne up a1 by (auto simp: transfer_page_def Let_def)
      qed
    qed
  qed
qed

lemma transfer_page_error:
  assumes run: "transfer_page R src ns page st = (st1, Some e)"
    and nf: "\<And>hist ids. r_fetch R hist src ids ns \<noteq> Inl AttributeError"
  shows "e \<noteq> AttributeError"
  using run nf [of "events (t_world st)" page]
  by (auto simp: transfer_page_def Let_def split: if_splits sum.splits prod.splits
        dest: batch_of_error)

lemma transfer_pages_grows:
  "transfer_pages R src ns pages st = (st1, r) \<Longrightarrow> transfer_closed P src (t_dest st)
     \<Longrightarrow> grows P w0 (t_world st)
     \<Longrightarrow> grows P w0 (t_world st1) \<and> keeps (t_dest st) (t_dest st1)"
proof (induction pages arbitrary: st)
  case Nil
  then show ?case by simp
next
  case (Cons page pages)
  obtain sa ra where pg: "transfer_page R src ns page st = (sa, ra)"
    by (cases "transfer_page R src ns page st") auto
  have a: "grows P w0 (t_world sa) \<and> keeps (t_dest st) (t_dest sa)"
    using pg Cons.prems(2,3) by (rule transfer_page_grows)
  show ?case
  proof (cases ra)
    case None
    with Cons.prems(1) pg have rest: "transfer_pages R src ns pages sa = (st1, r)" by simp
    have "transfer_closed P src (t_dest sa)"
      using Cons.prems(2) a by (blast intro: transfer_closed_keeps)
    with Cons.IH [OF rest] a show ?thesis by (blast intro: keeps_trans)
  next
    case (Some e)
    with Cons.prems(1) pg a show ?thesis by simp
  qed
qed

lemma transfer_pages_total:
  "transfer_pages R src ns pages st = (st1, r)
     \<Longrightarrow> total_migrated st1 + attempted_records (events (t_world st))
           = total_migrated st + attempted_records (events (t_world st1))"
proof (induction pages arbitrary: st)
  case Nil
  then show ?case by simp
next
  case (Cons page pages)
  obtain sa ra where pg: "transfer_page R src ns page st = (sa, ra)"
    by (cases "transfer_page R src ns page st") auto
  note a = transfer_page_total [OF pg]
  show ?case
  proof (cases ra)
    case None
    with Cons.prems pg have rest: "transfer_pages R src ns pages sa = (st1, r)" by simp
    from Cons.IH [OF rest] a show ?thesis by simp
  next
    case (Some e)
    with Cons.prems pg a show ?thesis by simp
  qed
qed

lemma transfer_pages_error:
  "transfer_pages R src ns pages st = (st1, Some e)
     \<Longrightarrow> (\<And>hist ids. r_fetch R hist src ids ns \<noteq> Inl AttributeError)
     \<Longrightarrow> e \<noteq> AttributeError"
proof (induction pages arbitrary: st)
  case Nil
  then show ?case by simp
next
  case (Cons page pages)
  obtain sa ra where pg: "transfer_page R src ns page st = (sa, ra)"
    by (cases "transfer_page R src ns page st") auto
  show ?case
  proof (cases ra)
    case None
    with Cons.prems(1) pg have "transfer_pages R src ns pages sa = (st1, Some e)" by simp
    then show ?thesis using Cons.prems(2) by (rule Cons.IH)
  next
    case (Some e')
    with Cons.prems(1) pg have "transfer_page R src ns page st = (st1, Some e)" by simp
    then show ?thesis using Cons.prems(2) by (rule transfer_page_error)
  qed
qed

lemma transfer_namespace_grows:
  assumes run: "transfer_namespace R src ns st = (st1, r)"
    and tc: "transfer_closed P src (t_dest st)" and g: "grows P w0 (t_world st)"
  shows "grows P w0 (t_world st1) \<and> keeps (t_dest st) (t_dest st1)"
proof (cases "has_list R src")
  case False
  with run g show ?thesis by (simp add: transfer_namespace_def)
next
  case True
  obtain pages fin where l: "r_list R (events (t_world st)) src ns = (pages, fin)"
    by (cases "r_list R (events (t_world st)) src ns") auto
  let ?s = "st\<lparr>t_world := emit (ListIds src ns) (t_world st)\<rparr>"
  obtain sa ra where ps: "transfer_pages R src ns pages ?s = (sa, ra)"
    by (cases "transfer_pages R src ns pages ?s") auto
  have "grows P w0 (t_world ?s)"
    using tc g by (auto simp: transfer_closed_def intro!: grows_emit)
  moreover have "transfer_closed P src (t_dest ?s)" using tc by simp
  ultimately have "grows P w0 (t_world sa) \<and> keeps (t_dest ?s) (t_dest sa)"
    using ps by (intro transfer_pages_grows [where P = P]) 
  then show ?thesis
    using run True l ps by (cases ra) (auto simp: transfer_namespace_def)
qed

lemma transfer_namespace_total:
  assumes run: "transfer_namespace R src ns st = (st1, r)"
  shows "total_migrated st1 + attempted_records (events (t_world st))
           = total_migrated st + attempted_records (events (t_world st1))"
proof (cases "has_list R src")
  case False
  with run show ?thesis by (simp add: transfer_namespace_def)
next
  case True
  obtain pages fin where l: "r_list R (events (t_world st)) src ns = (pages, fin)"
    by (cases "r_list R (events (t_world st)) src ns") auto
  let ?s = "st\<lparr>t_world := emit (ListIds src ns) (t_world st)\<rparr>"
  obtain sa ra where ps: "transfer_pages R src ns pages ?s = (sa, ra)"
    by (cases "transfer_pages R src ns pages ?s") auto
  from transfer_pages_total [OF ps] show ?thesis
    using run True l ps by (cases ra) (auto simp: transfer_namespace_def attempted_emit)
qed

lemma transfer_namespace_error:
  assumes run: "transfer_namespace R src ns st = (st1, Some e)"
    and hl: "has_list R src"
    and nf: "\<And>hist ids. r_fetch R hist src ids ns \<noteq> Inl AttributeError"
    and nl: "\<And>hist. snd (r_list R hist src ns) \<noteq> Some AttributeError"
  shows "e \<noteq> AttributeError"
proof -
  obtain pages fin where l: "r_list R (events (t_world st)) src ns = (pages, fin)"
    by (cases "r_list R (events (t_world st)) src ns") auto
  let ?s = "st\<lparr>t_world := emit (ListIds src ns) (t_world st)\<rparr>"
  obtain sa ra where ps: "transfer_pages R src ns pages ?s = (sa, ra)"
    by (cases "transfer_pages R src ns pages ?s") auto
  show ?thesis
  proof (cases ra)
    case None
    with run hl l ps have "fin = Some e" by (simp add: transfer_namespace_def)
    with nl [of "events (t_world st)"] l show ?thesis by auto
  next
    case (Some e')
    with run hl l ps have "transfer_pages R src ns pages ?s = (st1, Some e)"
      by (simp add: transfer_namespace_def)
    then show ?thesis using nf by (rule transfer_pages_error)
  qed
qed

lemma grows_namespaces:
  "grows (\<lambda>e. namespace_of e = []) w w1
     \<Longrightarrow> attempted_namespaces (events w1) = attempted_namespaces (events w)"
  by (auto simp: grows_def attempted_namespaces_def list_all_iff)

lemma admin_no_namespace: "admin_event e \<Longrightarrow> namespace_of e = []"
  by (cases e rule: namespace_of.cases) auto

lemma data_no_namespace: "data_message m \<Longrightarrow> namespace_of (Print m) = []"
  by (cases m) auto

lemma transfer_namespace_namespaces:
  assumes run: "transfer_namespace R src ns st = (st1, r)"
  shows "attempted_namespaces (events (t_world st1)) = attempted_namespaces (events (t_world st))"
proof -
  have tc: "transfer_closed (\<lambda>e. namespace_of e = []) src (t_dest st)"
    by (simp add: transfer_closed_def admin_no_namespace data_no_namespace)
  have "grows (\<lambda>e. namespace_of e = []) (t_world st) (t_world st1)
          \<and> keeps (t_dest st) (t_dest st1)"
    by (rule transfer_namespace_grows [OF run tc grows_refl])
  then show ?thesis by (simp add: grows_namespaces)
qed

lemma namespaces_tell:
  "attempted_namespaces (events (t_world (tell m (st :: 'v transfer_state))))
     = attempted_namespaces (events (t_world st)) @ namespace_of (Print m :: 'v event)"
  by (simp add: tell_def say_def emit_def attempted_namespaces_def)

lemma attempted_tell:
  "attempted_records (events (t_world (tell m (st :: 'v transfer_state))))
     = attempted_records (events (t_world st)) + attempt_of (Print m :: 'v event)"
  by (simp add: tell_def attempted_say)

lemma tell_fields [simp]:
  "total_migrated (tell m st) = total_migrated st" "t_dest (tell m st) = t_dest st"
  by (simp_all add: tell_def)

lemma transfer_loop_total:
  "total_migrated (transfer_loop R src nss st) + attempted_records (events (t_world st))
     = total_migrated st + attempted_records (events (t_world (transfer_loop R src nss st)))"
proof (induction nss arbitrary: st)
  case Nil
  show ?case by simp
next
  case (Cons ns rest)
  let ?s = "tell (ProcessingNamespace (ns_label ns)) st"
  obtain sa ra where tn: "transfer_namespace R src ns ?s = (sa, ra)"
    by (cases "transfer_namespace R src ns ?s") auto
  have a: "total_migrated sa + attempted_records (events (t_world st))
             = total_migrated st + attempted_records (events (t_world sa))"
    using transfer_namespace_total [OF tn] by (simp add: attempted_tell)
  show ?case
  proof (cases ra)
    case None
    with tn Cons.IH [of sa] a show ?thesis by simp
  next
    case (Some e)
    show ?thesis
    proof (cases "e = AttributeError")
      case True
      with tn Some a show ?thesis by (simp add: attempted_tell)
    next
      case False
      let ?t = "tell (Traceback e) (tell (ErrorMigratingNamespace (ns_label ns) e) sa)"
      have "total_migrated ?t + attempted_records (events (t_world st))
              = total_migrated st + attempted_records (events (t_world ?t))"
        using a by (simp add: attempted_tell)
      with tn Some False Cons.IH [of ?t] show ?thesis by simp
    qed
  qed
qed

lemma transfer_loop_namespaces:
  assumes hl: "has_list R src"
    and nf: "\<And>hist ids ns. r_fetch R hist src ids ns \<noteq> Inl AttributeError"
    and nl: "\<And>hist ns. snd (r_list R hist src ns) \<noteq> Some AttributeError"
  shows "attempted_namespaces (events (t_world (transfer_loop R src nss st)))
           = attempted_namespaces (events (t_world st)) @ map ns_label nss"
proof (induction nss arbitrary: st)
  case Nil
  show ?case by simp
next
  case (Cons ns rest)
  let ?s = "tell (ProcessingNamespace (ns_label ns)) st"
  obtain sa ra where tn: "transfer_namespace R src ns ?s = (sa, ra)"
    by (cases "transfer_namespace R src ns ?s") auto
  have a: "attempted_namespaces (events (t_world sa))
             = attempted_namespaces (events (t_world st)) @ [ns_label ns]"
    using transfer_namespace_namespaces [OF tn] by (simp add: namespaces_tell)
  show ?case
  proof (cases ra)
    case None
    with tn Cons.IH [of sa] a show ?thesis by simp
  next
    case (Some e)
    have ne: "e \<noteq> AttributeError"
      using tn Some transfer_namespace_error [OF _ hl nf nl] by blast
    let ?t = "tell (Traceback e) (tell (ErrorMigratingNamespace (ns_label ns) e) sa)"
    have "attempted_namespaces (events (t_world ?t))
            = attempted_namespaces (events (t_world st)) @ [ns_label ns]"
      using a by (simp add: namespaces_tell)
    with tn Some ne Cons.IH [of ?t] show ?thesis by simp
  qed
qed

lemma list_indexes_admin: "list_indexes R m w = (w1, r) \<Longrightarrow> grows admin_event w w1"
  by (erule list_indexes_grows) simp

lemma create_index_admin: "create_index R m d mt rep w = (w1, r) \<Longrightarrow> grows admin_event w w1"
  by (erule create_index_grows) simp

lemma PineconeManager_bound:
  "bound (PineconeManager (set_credentials k n w))"
  "handle_of (PineconeManager (set_credentials k n w)) = \<lparr>ih_api_key = Some k, ih_name = Some n\<rparr>"
  by (simp_all add: bound_def PineconeManager_def set_credentials_def handle_of_def)

lemma grows_set_credentials [simp]: "grows P w0 (set_credentials k n w) = grows P w0 w"
  by (simp add: grows_def set_credentials_def)

lemma keeps_handle: "keeps m m1 \<Longrightarrow> handle_of m1 = handle_of m"
  by (simp add: keeps_def handle_of_def)

lemma keeps_bound: "keeps m m1 \<Longrightarrow> bound m \<Longrightarrow> bound m1"
  by (auto simp: keeps_def)

lemma connect_source_grows:
  assumes run: "connect_source R sk sn w = (w1, r)" and sc: "setup_closed P"
    and g: "grows P w0 w"
  shows "grows P w0 w1"
proof -
  let ?w = "set_credentials sk sn (say (ConnectingSource sn) w)"
  let ?m = "PineconeManager ?w"
  have adm: "\<And>e. admin_event e \<Longrightarrow> P e" and msg: "\<And>m. setup_message m \<Longrightarrow> P (Print m)"
    using sc by (auto simp: setup_closed_def)
  obtain wa ra where li: "list_indexes R ?m ?w = (wa, ra)"
    by (cases "list_indexes R ?m ?w") auto
  have g0: "grows P w0 ?w" using g msg by (auto intro!: grows_say)
  have ga: "grows P w0 wa" using list_indexes_admin [OF li] adm g0 by (rule grows_step)
  show ?thesis
  proof (cases ra)
    case (Inl e)
    with run li ga show ?thesis by (simp add: connect_source_def Let_def)
  next
    case (Inr names)
    show ?thesis
    proof (cases "sn \<in> set names")
      case False
      with run li Inr ga msg show ?thesis
        by (auto simp: connect_source_def Let_def intro!: grows_say)
    next
      case True
      let ?w3 = "emit (DescribeIndex (api_key ?m) sn) wa"
      have g3: "grows P w0 ?w3" using ga adm by (auto intro!: grows_emit)
      show ?thesis
      proof (cases "r_describe_index R (events wa) (api_key ?m) sn")
        case (Inl e)
        with run li Inr True g3 msg show ?thesis
          by (auto simp: connect_source_def Let_def intro!: grows_say)
      next
        case d: (Inr desc)
        let ?w4 = "say (SourceConfig (im_dimension desc) (im_metric desc)) ?w3"
        obtain wb mb rb where goc: "get_or_create_index R ?m ?w4 = (wb, mb, rb)"
          by (cases "get_or_create_index R ?m ?w4") auto
        have "grows P w0 ?w4" using g3 msg by (auto intro!: grows_say)
        with get_or_create_index_admin [OF goc] adm have "grows P w0 wb" by (rule grows_step)
        with run li Inr True d goc show ?thesis
          by (cases rb) (auto simp: connect_source_def Let_def)
      qed
    qed
  qed
qed

lemma connect_source_binding:
  assumes run: "connect_source R sk sn w = (w1, Inr (smgr, sdim, smet, src))"
  shows "bound smgr \<and> handle_of smgr = \<lparr>ih_api_key = Some sk, ih_name = Some sn\<rparr>
         \<and> src = \<lparr>ih_api_key = Some sk, ih_name = Some sn\<rparr>"
proof -
  let ?w = "set_credentials sk sn (say (ConnectingSource sn) w)"
  let ?m = "PineconeManager ?w"
  from run obtain w4 wb where goc: "get_or_create_index R ?m w4 = (wb, smgr, Inr src)"
    by (auto simp: connect_source_def Let_def split: prod.splits sum.splits if_splits)
  have k: "keeps ?m smgr" using goc by (rule get_or_create_index_keeps)
  have "src = handle_of ?m"
    using get_or_create_index_handle [OF goc] PineconeManager_bound(1) by blast
  with k show ?thesis
    using PineconeManager_bound [of sk sn "say (ConnectingSource sn) w"]
    by (auto simp: keeps_handle keeps_bound)
qed

lemma wait_ready_grows:
  "wait_ready fuel R m name w = Some (w1, r) \<Longrightarrow> setup_closed P \<Longrightarrow> grows P w0 w
     \<Longrightarrow> grows P w0 w1"
proof (induction fuel arbitrary: w)
  case 0
  then show ?case by simp
next
  case (Suc fuel)
  have adm: "\<And>e. admin_event e \<Longrightarrow> P e" and msg: "\<And>m. setup_message m \<Longrightarrow> P (Print m)"
    using Suc.prems(2) by (auto simp: setup_closed_def)
  let ?w1 = "emit (DescribeIndex (api_key m) name) w"
  have g1: "grows P w0 ?w1" using Suc.prems(3) adm by (auto intro!: grows_emit)
  show ?case
  proof (cases "r_describe_index R (events w) (api_key m) name")
    case (Inl e)
    with Suc.prems(1) g1 show ?thesis by (auto simp: Let_def)
  next
    case (Inr d)
    show ?thesis
    proof (cases "im_ready d")
      case True
      with Suc.prems(1) Inr g1 show ?thesis by (auto simp: Let_def)
    next
      case False
      let ?w2 = "emit (Sleep 2) (say WaitingForProvisioning ?w1)"
      have "grows P w0 ?w2" using g1 adm msg by (auto intro!: grows_emit grows_say)
      moreover have "wait_ready fuel R m name ?w2 = Some (w1, r)"
        using Suc.prems(1) Inr False by (simp add: Let_def)
      ultimately show ?thesis using Suc.IH Suc.prems(2) by blast
    qed
  qed
qed

lemma connect_destination_grows:
  assumes run: "connect_destination fuel R dk dn sdim smet w = Some (w1, r)"
    and sc: "setup_closed P" and g: "grows P w0 w"
  shows "grows P w0 w1"
proof -
  let ?w = "set_credentials dk dn (say (ConnectingDestination dn) w)"
  let ?m = "PineconeManager ?w"
  have adm: "\<And>e. admin_event e \<Longrightarrow> P e" and msg: "\<And>m. setup_message m \<Longrightarrow> P (Print m)"
    using sc by (auto simp: setup_closed_def)
  obtain wa ra where li: "list_indexes R ?m ?w = (wa, ra)"
    by (cases "list_indexes R ?m ?w") auto
  have g0: "grows P w0 ?w" using g msg by (auto intro!: grows_say)
  have ga: "grows P w0 wa" using list_indexes_admin [OF li] adm g0 by (rule grows_step)
  show ?thesis
  proof (cases ra)
    case (Inl e)
    with run li ga show ?thesis by (auto simp: connect_destination_def Let_def)
  next
    case (Inr names)
    show ?thesis
    proof (cases "dn \<in> set names")
      case True
      let ?w4 = "emit (DescribeIndex (api_key ?m) dn) (say (DestinationExists dn) wa)"
      have g4: "grows P w0 ?w4" using ga adm msg by (auto intro!: grows_emit grows_say)
      show ?thesis
      proof (cases "r_describe_index R (events (say (DestinationExists dn) wa)) (api_key ?m) dn")
        case (Inl e)
        with run li Inr True g4 msg show ?thesis
          by (auto simp: connect_destination_def Let_def intro!: grows_say)
      next
        case d: (Inr desc)
        with run li Inr True g4 msg show ?thesis
          by (auto simp: connect_destination_def Let_def split: if_splits intro!: grows_say)
      qed
    next
      case False
      let ?w2 = "say CreatingWithDefaults (say (DestinationMissing dn) wa)"
      obtain wb mb rb where ci: "create_index R ?m sdim smet False ?w2 = (wb, mb, rb)"
        by (cases "create_index R ?m sdim smet False ?w2") auto
      have "grows P w0 ?w2" using ga msg by (auto intro!: grows_say)
      with create_index_admin [OF ci] adm have gb: "grows P w0 wb" by (rule grows_step)
      show ?thesis
      proof (cases rb)
        case (Some e)
        with run li Inr False ci gb show ?thesis
          by (auto simp: connect_destination_def Let_def)
      next
        case None
        show ?thesis
        proof (cases "wait_ready fuel R mb dn wb")
          case None
          with run li Inr False ci \<open>rb = None\<close> show ?thesis
            by (auto simp: connect_destination_def Let_def)
        next
          case (Some p)
          obtain wc rc where p: "p = (wc, rc)" by (cases p) auto
          have gc: "grows P w0 wc"
            using Some p wait_ready_grows sc gb by blast
          show ?thesis
            using run li Inr False ci \<open>rb = None\<close> Some p gc msg
            by (cases rc) (auto simp: connect_destination_def Let_def intro!: grows_say)
        qed
      qed
    qed
  qed
qed

lemma connect_destination_binding:
  assumes run: "connect_destination fuel R dk dn sdim smet w = Some (w1, Inr dmgr)"
  shows "bound dmgr \<and> handle_of dmgr = \<lparr>ih_api_key = Some dk, ih_name = Some dn\<rparr>"
proof -
  let ?w = "set_credentials dk dn (say (ConnectingDestination dn) w)"
  let ?m = "PineconeManager ?w"
  have "dmgr = ?m \<or> (\<exists>w2 w3 r. create_index R ?m sdim smet False w2 = (w3, dmgr, r))"
    using run
    by (auto simp: connect_destination_def Let_def
          split: prod.splits sum.splits if_splits option.splits)
  then have "keeps ?m dmgr"
    by (auto dest: create_index_keeps)
  then show ?thesis
    using PineconeManager_bound [of dk dn "say (ConnectingDestination dn) w"]
    by (auto simp: keeps_handle keeps_bound)
qed

lemma describe_index_stats_grows:
  assumes run: "describe_index_stats R m w = (w1, m1, r)" and b: "bound m"
    and sc: "setup_closed P" and st: "P (DescribeIndexStats (handle_of m))" and g: "grows P w0 w"
  shows "grows P w0 w1 \<and> keeps m m1"
proof -
  have adm: "\<And>e. admin_event e \<Longrightarrow> P e" and msg: "\<And>m. setup_message m \<Longrightarrow> P (Print m)"
    using sc by (auto simp: setup_closed_def)
  obtain wa ma ra where goc: "get_or_create_index R m w = (wa, ma, ra)"
    by (cases "get_or_create_index R m w") auto
  have k: "keeps m ma" using goc by (rule get_or_create_index_keeps)
  have ga: "grows P w0 wa" using get_or_create_index_admin [OF goc] adm g by (rule grows_step)
  show ?thesis
  proof (cases ra)
    case (Inl e)
    with run goc k ga msg show ?thesis
      by (auto simp: describe_index_stats_def intro!: grows_say)
  next
    case (Inr h)
    have h: "h = handle_of m" using get_or_create_index_handle goc Inr b by blast
    have "grows P w0 (emit (DescribeIndexStats h) wa)"
      using ga st h by (auto intro!: grows_emit)
    with run goc Inr k msg show ?thesis
      by (auto simp: describe_index_stats_def Let_def split: sum.splits intro!: grows_say)
  qed
qed

lemma prepare_migration_grows:
  assumes run: "prepare_migration R m w = (w1, m1, r)" and b: "bound m"
    and sc: "setup_closed P" and st: "P (DescribeIndexStats (handle_of m))" and g: "grows P w0 w"
  shows "grows P w0 w1"
proof -
  have msg: "\<And>m. setup_message m \<Longrightarrow> P (Print m)"
    using sc by (auto simp: setup_closed_def)
  let ?w = "say PreparingMigration w"
  obtain wa ma ra where ds: "describe_index_stats R m ?w = (wa, ma, ra)"
    by (cases "describe_index_stats R m ?w") auto
  have "grows P w0 ?w" using g msg by (auto intro!: grows_say)
  then have "grows P w0 wa \<and> keeps m ma"
    by (intro describe_index_stats_grows [where P = P, OF ds b sc st])
  then show ?thesis
    using run ds msg
    by (auto simp: prepare_migration_def Let_def split: sum.splits option.splits
          intro!: grows_say)
qed

lemma prepare_migration_outcome:
  "prepare_migration R m w = (w1, m1, Inl out) \<Longrightarrow> out = Uncaught AttributeError"
  by (auto simp: prepare_migration_def enumerate_namespaces_def Let_def
        split: prod.splits sum.splits option.splits if_splits)

lemma admin_setup: "admin_event e \<Longrightarrow> setup_event e"
  by (cases e) simp_all

lemma admin_targets: "admin_event e \<Longrightarrow> targets src dst e"
  by (cases e) simp_all

lemma setup_closed_setup: "setup_closed setup_event"
  by (simp add: setup_closed_def admin_setup)

lemma setup_closed_targets: "setup_closed (targets src dst)"
  by (simp add: setup_closed_def admin_targets)

lemma grows_tell: "P (Print m) \<Longrightarrow> grows P w0 (t_world st) \<Longrightarrow> grows P w0 (t_world (tell m st))"
  by (simp add: tell_def grows_say)

lemma transfer_loop_grows:
  "transfer_closed P src (t_dest st) \<Longrightarrow> (\<And>m. P (Print m)) \<Longrightarrow> grows P w0 (t_world st)
     \<Longrightarrow> grows P w0 (t_world (transfer_loop R src nss st))"
proof (induction nss arbitrary: st)
  case Nil
  then show ?case by simp
next
  case (Cons ns rest)
  let ?s = "tell (ProcessingNamespace (ns_label ns)) st"
  obtain sa ra where tn: "transfer_namespace R src ns ?s = (sa, ra)"
    by (cases "transfer_namespace R src ns ?s") auto
  have "grows P w0 (t_world ?s)" using Cons.prems(2,3) by (simp add: grows_tell)
  moreover have "transfer_closed P src (t_dest ?s)" using Cons.prems(1) by simp
  ultimately have a: "grows P w0 (t_world sa) \<and> keeps (t_dest ?s) (t_dest sa)"
    using tn by (intro transfer_namespace_grows [where P = P])
  then have tc: "transfer_closed P src (t_dest sa)"
    using Cons.prems(1) by (auto intro: transfer_closed_keeps)
  show ?case
  proof (cases ra)
    case None
    with tn Cons.IH [OF tc Cons.prems(2)] a show ?thesis by simp
  next
    case (Some e)
    let ?t = "tell (Traceback e) (tell (ErrorMigratingNamespace (ns_label ns) e) sa)"
    have "grows P w0 (t_world ?t)" using a Cons.prems(2) by (simp add: grows_tell)
    moreover have "transfer_closed P src (t_dest ?t)" using tc by simp
    ultimately have "grows P w0 (t_world (transfer_loop R src rest ?t))"
      using Cons.IH Cons.prems(2) by blast
    with tn Some a Cons.prems(2) show ?thesis by (simp add: grows_tell)
  qed
qed

lemma migrate_transfer_grows:
  assumes tc: "transfer_closed P src dmgr" and pr: "\<And>m. P (Print m)" and g: "grows P w0 w"
  shows "grows P w0 (migrate_transfer R src dmgr nss w)"
proof -
  let ?st = "\<lparr>t_world = say StartingDataCopy w, t_dest = dmgr, total_migrated = 0\<rparr>"
  have "grows P w0 (t_world ?st)" using g pr by (simp add: grows_say)
  moreover have "transfer_closed P src (t_dest ?st)" using tc by simp
  ultimately have "grows P w0 (t_world (transfer_loop R src nss ?st))"
    using pr by (intro transfer_loop_grows)
  then show ?thesis using pr by (simp add: migrate_transfer_def Let_def grows_say)
qed

lemma migrate_setup_grows:
  assumes run: "migrate fuel R sk sn dk dn w = Some (w', out)" and nr: "out \<noteq> Returned"
  shows "grows setup_event w w'"
proof -
  have sc: "setup_closed (setup_event :: 'v event \<Rightarrow> bool)"
    by (rule setup_closed_setup)
  obtain w1 r1 where cs: "connect_source R sk sn w = (w1, r1)"
    by (cases "connect_source R sk sn w") auto
  have g1: "grows setup_event w w1" using cs sc by (rule connect_source_grows) simp
  show ?thesis
  proof (cases r1)
    case (Inl o1)
    with run cs g1 show ?thesis by (simp add: migrate_def)
  next
    case (Inr t)
    obtain smgr sdim smet src where t: "t = (smgr, sdim, smet, src)" by (cases t) auto
    note b = connect_source_binding [OF cs [unfolded Inr t]]
    show ?thesis
    proof (cases "connect_destination fuel R dk dn sdim smet w1")
      case None
      with run cs Inr t show ?thesis by (simp add: migrate_def)
    next
      case (Some p)
      obtain w2 r2 where p: "p = (w2, r2)" by (cases p) auto
      have g2: "grows setup_event w w2"
        using Some [unfolded p] sc g1 by (rule connect_destination_grows)
      show ?thesis
      proof (cases r2)
        case (Inl o2)
        with run cs Inr t Some p g2 show ?thesis by (simp add: migrate_def)
      next
        case d: (Inr dmgr)
        obtain w3 m3 r3 where pm: "prepare_migration R smgr w2 = (w3, m3, r3)"
          by (cases "prepare_migration R smgr w2") auto
        have g3: "grows setup_event w w3"
          using b by (intro prepare_migration_grows [where P = setup_event, OF pm _ sc _ g2]) simp_all
        show ?thesis
          using run cs Inr t Some p d pm g3 nr by (cases r3) (auto simp: migrate_def)
      qed
    qed
  qed
qed

lemma migrate_targets:
  assumes run: "migrate fuel R sk sn dk dn w = Some (w', out)"
  shows "grows (targets \<lparr>ih_api_key = Some sk, ih_name = Some sn\<rparr>
                        \<lparr>ih_api_key = Some dk, ih_name = Some dn\<rparr>) w w'"
proof -
  let ?P = "targets \<lparr>ih_api_key = Some sk, ih_name = Some sn\<rparr>
                    \<lparr>ih_api_key = Some dk, ih_name = Some dn\<rparr> :: 'v event \<Rightarrow> bool"
  have adm: "\<And>e. admin_event e \<Longrightarrow> ?P e"
    by (rule admin_targets)
  have sc: "setup_closed ?P"
    by (rule setup_closed_targets)
  obtain w1 r1 where cs: "connect_source R sk sn w = (w1, r1)"
    by (cases "connect_source R sk sn w") auto
  have g1: "grows ?P w w1" using cs sc by (rule connect_source_grows) simp
  show ?thesis
  proof (cases r1)
    case (Inl o1)
    with run cs g1 show ?thesis by (simp add: migrate_def)
  next
    case (Inr t)
    obtain smgr sdim smet src where t: "t = (smgr, sdim, smet, src)" by (cases t) auto
    note b = connect_source_binding [OF cs [unfolded Inr t]]
    show ?thesis
    proof (cases "connect_destination fuel R dk dn sdim smet w1")
      case None
      with run cs Inr t show ?thesis by (simp add: migrate_def)
    next
      case (Some p)
      obtain w2 r2 where p: "p = (w2, r2)" by (cases p) auto
      have g2: "grows ?P w w2"
        using Some [unfolded p] sc g1 by (rule connect_destination_grows)
      show ?thesis
      proof (cases r2)
        case (Inl o2)
        with run cs Inr t Some p g2 show ?thesis by (simp add: migrate_def)
      next
        case d: (Inr dmgr)
        note bd = connect_destination_binding [OF Some [unfolded p d]]
        obtain w3 m3 r3 where pm: "prepare_migration R smgr w2 = (w3, m3, r3)"
          by (cases "prepare_migration R smgr w2") auto
        have g3: "grows ?P w w3"
          using b by (intro prepare_migration_grows [where P = ?P, OF pm _ sc _ g2]) simp_all
        have tc: "transfer_closed ?P src dmgr"
          using b bd by (simp add: transfer_closed_def admin_targets)
        have "grows ?P w (migrate_transfer R src dmgr nss w3)" for nss
          using tc _ g3 by (rule migrate_transfer_grows) simp
        then show ?thesis
          using run cs Inr t Some p d pm g3 by (cases r3) (auto simp: migrate_def)
      qed
    qed
  qed
qed

lemma list_indexes_environ:
  "list_indexes R m (w\<lparr>environ := env\<rparr>)
     = (case list_indexes R m w of (w1, r) \<Rightarrow> (w1\<lparr>environ := env\<rparr>, r))"
  by (auto simp: list_indexes_def Let_def emit_def split: sum.splits)

lemma open_index_environ:
  "open_index R m (w\<lparr>environ := env\<rparr>)
     = (case open_index R m w of (w1, r) \<Rightarrow> (w1\<lparr>environ := env\<rparr>, r))"
  by (auto simp: open_index_def Let_def emit_def split: option.splits)

lemma say_environ: "say msg (w\<lparr>environ := env\<rparr>) = (say msg w)\<lparr>environ := env\<rparr>"
  by (simp add: say_def emit_def)

lemma delete_index_environ:
  "delete_index R m (w\<lparr>environ := env\<rparr>)
     = (case delete_index R m w of (w1, r) \<Rightarrow> (w1\<lparr>environ := env\<rparr>, r))"
  by (auto simp: delete_index_def Let_def say_def emit_def split: sum.splits option.splits)

lemma create_index_new_environ:
  "create_index_new R m d mt (w\<lparr>environ := env\<rparr>)
     = (case create_index_new R m d mt w of (w1, r) \<Rightarrow> (w1\<lparr>environ := env\<rparr>, r))"
proof -
  let ?w2 = "emit (CreateIndex (api_key m) (index_name m) d mt) (say (CreatingIndex (index_name m) d mt) w)"
  have e: "emit (CreateIndex (api_key m) (index_name m) d mt)
             (say (CreatingIndex (index_name m) d mt) (w\<lparr>environ := env\<rparr>)) = ?w2\<lparr>environ := env\<rparr>"
    by (simp add: say_def emit_def)
  have h: "events (say (CreatingIndex (index_name m) d mt) (w\<lparr>environ := env\<rparr>))
             = events (say (CreatingIndex (index_name m) d mt) w)"
    by (simp add: say_def emit_def)
  obtain w3 r3 where oi: "open_index R m ?w2 = (w3, r3)" by (cases "open_index R m ?w2") auto
  show ?thesis
    unfolding create_index_new_def Let_def e h open_index_environ oi
    by (cases r3) (auto simp: say_environ split: option.splits)
qed

lemma create_index_environ:
  "create_index R m d mt rep (w\<lparr>environ := env\<rparr>)
     = (case create_index R m d mt rep w of (w1, r) \<Rightarrow> (w1\<lparr>environ := env\<rparr>, r))"
proof -
  obtain w1 r1 where li: "list_indexes R m w = (w1, r1)" by (cases "list_indexes R m w") auto
  show ?thesis
  proof (cases r1)
    case (Inl e)
    with li show ?thesis by (simp add: create_index_def list_indexes_environ)
  next
    case (Inr names)
    let ?wd = "say (IndexExistsRecreating (index_name m)) w1"
    let ?wo = "say (IndexExistsSkipping (index_name m)) w1"
    obtain w2 m2 r2 where di: "delete_index R m ?wd = (w2, m2, r2)"
      by (cases "delete_index R m ?wd") auto
    obtain w3 r3 where oi: "open_index R m ?wo = (w3, r3)" by (cases "open_index R m ?wo") auto
    show ?thesis
      using li Inr di oi
      by (cases r2; cases r3)
         (simp_all add: create_index_def list_indexes_environ say_environ delete_index_environ
            open_index_environ create_index_new_environ)
  qed
qed

lemma get_or_create_index_environ:
  "get_or_create_index R m (w\<lparr>environ := env\<rparr>)
     = (case get_or_create_index R m w of (w1, r) \<Rightarrow> (w1\<lparr>environ := env\<rparr>, r))"
proof (cases "index m")
  case (Some h)
  then show ?thesis by (simp add: get_or_create_index_def)
next
  case None
  obtain w1 r1 where li: "list_indexes R m w = (w1, r1)" by (cases "list_indexes R m w") auto
  show ?thesis
  proof (cases r1)
    case (Inl e)
    with None li show ?thesis by (simp add: get_or_create_index_def list_indexes_environ)
  next
    case (Inr names)
    let ?wf = "say (IndexFoundConnecting (index_name m)) w1"
    let ?wc = "say (IndexMissingCallingCreate (index_name m)) w1"
    obtain w2 r2 where oi: "open_index R m ?wf = (w2, r2)" by (cases "open_index R m ?wf") auto
    obtain w3 m3 r3 where ci: "create_index R m 1536 ''cosine'' False ?wc = (w3, m3, r3)"
      by (cases "create_index R m 1536 ''cosine'' False ?wc") auto
    obtain w4 r4 where oj: "open_index R m3 w3 = (w4, r4)" by (cases "open_index R m3 w3") auto
    show ?thesis
      using None li Inr oi ci oj
      by (cases r2; cases r3; cases r4)
         (simp_all add: get_or_create_index_def list_indexes_environ say_environ
            open_index_environ create_index_environ)
  qed
qed

lemma describe_index_stats_environ:
  "describe_index_stats R m (w\<lparr>environ := env\<rparr>)
     = (case describe_index_stats R m w of (w1, r) \<Rightarrow> (w1\<lparr>environ := env\<rparr>, r))"
proof -
  obtain w1 m1 r1 where goc: "get_or_create_index R m w = (w1, m1, r1)"
    by (cases "get_or_create_index R m w") auto
  show ?thesis
  proof (cases r1)
    case (Inl e)
    with goc show ?thesis
      by (simp add: describe_index_stats_def get_or_create_index_environ say_environ)
  next
    case (Inr h)
    with goc show ?thesis
      by (cases "r_describe_index_stats R (events w1) h")
         (simp_all add: describe_index_stats_def get_or_create_index_environ Let_def say_def emit_def)
  qed
qed

lemma setup_no_record_call: "list_all setup_event xs \<Longrightarrow> filter record_call xs = []"
proof (induction xs)
  case Nil
  show ?case by simp
next
  case (Cons e xs)
  then show ?case by (cases e) simp_all
qed

lemma setup_not_started: "list_all setup_event xs \<Longrightarrow> Print StartingDataCopy \<notin> set xs"
  by (induction xs) auto

lemma grows_setup_record_calls:
  "grows setup_event w w1 \<Longrightarrow> filter record_call (events w1) = filter record_call (events w)"
  by (auto simp: grows_def setup_no_record_call)

lemma grows_setup_not_started:
  "grows setup_event w w1 \<Longrightarrow> Print StartingDataCopy \<notin> set (drop (length (events w)) (events w1))"
  by (auto simp: grows_def setup_not_started)

lemma last_say [simp]: "events (say m w) \<noteq> [] \<and> last (events (say m w)) = Print m"
  by (simp add: say_def emit_def)

lemma connect_source_exit:
  "connect_source R sk sn w = (w1, Inl (SysExit c))
     \<Longrightarrow> c = 1 \<and> (\<exists>m. fatal_message m \<and> events w1 \<noteq> [] \<and> last (events w1) = Print m)"
  by (auto simp: connect_source_def Let_def split: prod.splits sum.splits if_splits)

lemma connect_destination_exit:
  "connect_destination fuel R dk dn sdim smet w = Some (w1, Inl (SysExit c))
     \<Longrightarrow> c = 1 \<and> (\<exists>m. fatal_message m \<and> events w1 \<noteq> [] \<and> last (events w1) = Print m)"
  by (auto simp: connect_destination_def Let_def
        split: prod.splits sum.splits if_splits option.splits)

lemma migrate_exit:
  assumes run: "migrate fuel R sk sn dk dn w = Some (w', SysExit c)"
  shows "c = 1 \<and> (\<exists>m. fatal_message m \<and> events w' \<noteq> [] \<and> last (events w') = Print m)"
proof -
  obtain w1 r1 where cs: "connect_source R sk sn w = (w1, r1)"
    by (cases "connect_source R sk sn w") auto
  show ?thesis
  proof (cases r1)
    case (Inl o1)
    with run cs show ?thesis by (auto simp: migrate_def dest: connect_source_exit)
  next
    case (Inr t)
    obtain smgr sdim smet src where t: "t = (smgr, sdim, smet, src)" by (cases t) auto
    show ?thesis
    proof (cases "connect_destination fuel R dk dn sdim smet w1")
      case None
      with run cs Inr t show ?thesis by (simp add: migrate_def)
    next
      case (Some p)
      obtain w2 r2 where p: "p = (w2, r2)" by (cases p) auto
      show ?thesis
      proof (cases r2)
        case (Inl o2)
        with run cs Inr t Some p show ?thesis
          by (auto simp: migrate_def dest: connect_destination_exit)
      next
        case d: (Inr dmgr)
        obtain w3 m3 r3 where pm: "prepare_migration R smgr w2 = (w3, m3, r3)"
          by (cases "prepare_migration R smgr w2") auto
        show ?thesis
          using run cs Inr t Some p d pm
          by (cases r3) (auto simp: migrate_def dest: prepare_migration_outcome)
      qed
    qed
  qed
qed

lemma migrate_exit_codes:
  assumes run: "migrate fuel R sk sn dk dn w0 = Some (w', out)" and g: "grows setup_event w w0"
  shows "(\<forall>c. out = SysExit c \<longrightarrow>
            c = 1 \<and> (\<exists>m. fatal_message m \<and> events w' \<noteq> [] \<and> last (events w') = Print m))
       \<and> (Print StartingDataCopy \<in> set (drop (length (events w)) (events w')) \<longrightarrow> out = Returned)"
proof -
  have "out \<noteq> Returned \<Longrightarrow> grows setup_event w w'"
    using run g migrate_setup_grows grows_trans by blast
  then show ?thesis
    using run migrate_exit grows_setup_not_started by blast
qed

lemma early_exit_codes:
  assumes g: "grows setup_event w w0" and f: "fatal_message m"
  shows "(\<forall>c. SysExit 1 = SysExit c \<longrightarrow>
            c = 1 \<and> (\<exists>m'. fatal_message m' \<and> events (say m w0) \<noteq> []
                         \<and> last (events (say m w0)) = Print m'))
       \<and> (Print StartingDataCopy \<in> set (drop (length (events w)) (events (say m w0)))
            \<longrightarrow> SysExit 1 = Returned)"
proof -
  have "setup_message m" using f by (cases m) simp_all
  then have "grows setup_event w (say m w0)" using g by (simp add: grows_say)
  then show ?thesis using f grows_setup_not_started by auto
qed

lemma num_batches_ceiling:
  "1 \<le> B \<Longrightarrow> num_batches n B = Inr \<lceil>real n / real (nat B)\<rceil>"
proof -
  assume B: "1 \<le> B"
  have "\<lceil>real n / real (nat B)\<rceil> = \<lceil>of_int (int n) / (of_int B :: real)\<rceil>"
    using B by simp
  also have "\<dots> = - ((- int n) div B)"
    by (rule ceiling_divide_eq_div)
  finally show ?thesis using B by (simp add: num_batches_def)
qed

lemma slice_nat:
  "0 \<le> B \<Longrightarrow>
   py_slice vs (nat (int i * B)) (nat (min ((int i + 1) * B) (int (length vs))))
     = py_slice vs (i * nat B) (min ((i + 1) * nat B) (length vs))"
proof -
  assume B: "0 \<le> B"
  have a: "nat (int i * B) = i * nat B" using B by (simp add: nat_mult_distrib)
  have "(int i + 1) * B = int ((i + 1) * nat B)" using B by (simp add: algebra_simps)
  then have "nat (min ((int i + 1) * B) (int (length vs)))
               = nat (int (min ((i + 1) * nat B) (length vs)))"
    by (simp only: of_nat_min)
  then have "nat (min ((int i + 1) * B) (int (length vs))) = min ((i + 1) * nat B) (length vs)"
    by (simp only: nat_int)
  with a show ?thesis by simp
qed

lemma upsert_calls_append [simp]: "upsert_calls (xs @ ys) = upsert_calls xs @ upsert_calls ys"
  by (simp add: upsert_calls_def)

lemma upsert_calls_admin: "list_all admin_event xs \<Longrightarrow> upsert_calls xs = []"
proof (induction xs)
  case Nil
  show ?case by (simp add: upsert_calls_def)
next
  case (Cons e xs)
  then show ?case by (cases e) (simp_all add: upsert_calls_def)
qed

lemma upsert_calls_print [simp]: "upsert_calls [Print m] = []"
  by (simp add: upsert_calls_def)

lemma upsert_calls_upserts [simp]: "upsert_calls (map (\<lambda>i. Upsert h (f i) ns) xs) = map f xs"
  by (induction xs) (simp_all add: upsert_calls_def)

lemma upsert_batches_calls:
  "upsert_batches R h vs ns B idxs w = (w1, r)
   \<Longrightarrow> \<exists>k\<le>length idxs.
         events w1 = events w @ map (\<lambda>i. Upsert h
            (py_slice vs (nat (int i * B)) (nat (min ((int i + 1) * B) (int (length vs))))) ns)
            (take k idxs)
         \<and> (r = None \<longrightarrow> k = length idxs)"
proof (induction idxs arbitrary: w)
  case Nil
  then show ?case by simp
next
  case (Cons i idxs)
  let ?b = "py_slice vs (nat (int i * B)) (nat (min ((int i + 1) * B) (int (length vs))))"
  show ?case
  proof (cases "r_upsert R (events w) h ?b ns")
    case (Some e)
    with Cons.prems have "w1 = emit (Upsert h ?b ns) w" "r = Some e" by (auto simp: Let_def)
    then show ?thesis by (intro exI [of _ 1]) (simp add: emit_def)
  next
    case None
    with Cons.prems have "upsert_batches R h vs ns B idxs (emit (Upsert h ?b ns) w) = (w1, r)"
      by (simp add: Let_def)
    from Cons.IH [OF this] obtain k where "k \<le> length idxs"
      and "events w1 = events (emit (Upsert h ?b ns) w) @ map (\<lambda>i. Upsert h
            (py_slice vs (nat (int i * B)) (nat (min ((int i + 1) * B) (int (length vs))))) ns)
            (take k idxs)"
      and "r = None \<longrightarrow> k = length idxs" by blast
    then show ?thesis by (intro exI [of _ "Suc k"]) (simp add: emit_def)
  qed
qed

lemma upsert_batches_ok:
  "(\<And>hist b. r_upsert R hist h b ns = None) \<Longrightarrow> snd (upsert_batches R h vs ns B idxs w) = None"
  by (induction idxs arbitrary: w) (simp_all add: Let_def)

lemma concat_chunks:
  "concat (map (\<lambda>i. take b (drop (i * b) xs)) [0..<n]) = take (n * b) xs"
proof (induction n)
  case 0
  show ?case by simp
next
  case (Suc n)
  have "take (n * b) xs @ take b (drop (n * b) xs) = take (n * b + b) xs"
    by (simp add: take_add)
  with Suc show ?case by (simp add: add.commute)
qed

lemma py_slice_chunk:
  "py_slice xs (i * b) (min ((i + 1) * b) (length xs)) = take b (drop (i * b) xs)"
proof -
  define s where "s = i * b"
  have e: "(i + 1) * b = s + b" by (simp add: s_def)
  have "min (s + b) (length xs) - s = min b (length xs - s)" by arith
  then have "py_slice xs s (min (s + b) (length xs))
               = take (min b (length (drop s xs))) (drop s xs)"
    by (simp add: py_slice_def)
  also have "\<dots> = take b (drop s xs)" by (simp add: min_def)
  finally show ?thesis unfolding e s_def .
qed

lemma ceiling_covers:
  assumes "0 < b"
  shows "n \<le> nat \<lceil>real n / real b\<rceil> * b"
proof -
  have "real n / real b \<le> real_of_int \<lceil>real n / real b\<rceil>"
    by (rule le_of_int_ceiling)
  moreover have "0 < real b" using assms by simp
  ultimately have "real n \<le> real_of_int \<lceil>real n / real b\<rceil> * real b"
    by (rule iffD1 [OF pos_divide_le_eq, rotated])
  moreover have "0 \<le> \<lceil>real n / real b\<rceil>"
    using ceiling_mono [of 0 "real n / real b"] by simp
  ultimately have "real n \<le> real (nat \<lceil>real n / real b\<rceil> * b)"
    by simp
  then show ?thesis using of_nat_le_iff by blast
qed

lemma spec_batches_props:
  assumes b: "0 < b"
  shows "length (spec_batches xs b) = nat \<lceil>real (length xs) / real b\<rceil>"
    and "\<forall>i<length (spec_batches xs b).
           spec_batches xs b ! i = py_slice xs (i * b) (min ((i + 1) * b) (length xs))"
    and "\<forall>c\<in>set (spec_batches xs b). length c \<le> b"
    and "concat (spec_batches xs b) = xs"
proof -
  show "length (spec_batches xs b) = nat \<lceil>real (length xs) / real b\<rceil>"
    by (simp add: spec_batches_def)
  show "\<forall>i<length (spec_batches xs b).
           spec_batches xs b ! i = py_slice xs (i * b) (min ((i + 1) * b) (length xs))"
    by (simp add: spec_batches_def)
  show "\<forall>c\<in>set (spec_batches xs b). length c \<le> b"
    unfolding spec_batches_def py_slice_chunk by auto
  have "concat (spec_batches xs b) = take (nat \<lceil>real (length xs) / real b\<rceil> * b) xs"
    unfolding spec_batches_def py_slice_chunk by (simp add: concat_chunks)
  then show "concat (spec_batches xs b) = xs"
    using ceiling_covers [OF b, of "length xs"] by simp
qed

lemma grows_admin_calls: "grows admin_event w w1 \<Longrightarrow> upsert_calls (events w1) = upsert_calls (events w)"
  by (auto simp: grows_def upsert_calls_admin)

lemma upsert_calls_say [simp]: "upsert_calls (events (say m w)) = upsert_calls (events w)"
  by (simp add: say_def emit_def)

lemma spec_batches_int:
  "1 \<le> B \<Longrightarrow>
   map (\<lambda>i. py_slice vs (nat (int i * B)) (nat (min ((int i + 1) * B) (int (length vs)))))
     [0..<nat \<lceil>real (length vs) / real (nat B)\<rceil>] = spec_batches vs (nat B)"
  by (simp add: spec_batches_def slice_nat)

lemma upsert_data_body_calls:
  assumes B: "1 \<le> B" and run: "upsert_data_body R m vs ns B w = (w1, m1, r)"
  shows "\<exists>k. upsert_calls (events w1) = upsert_calls (events w) @ take k (spec_batches vs (nat B))
           \<and> ((\<exists>wa ma h. get_or_create_index R m w = (wa, ma, Inr h)
                  \<and> (\<forall>hist b. r_upsert R hist h b ns = None))
                \<longrightarrow> k = length (spec_batches vs (nat B)))"
proof -
  obtain wa ma ra where goc: "get_or_create_index R m w = (wa, ma, ra)"
    by (cases "get_or_create_index R m w") auto
  have ca: "upsert_calls (events wa) = upsert_calls (events w)"
    using get_or_create_index_admin [OF goc] by (rule grows_admin_calls)
  show ?thesis
  proof (cases ra)
    case (Inl e)
    with run goc have "w1 = wa" by (simp add: upsert_data_body_def)
    with ca goc Inl show ?thesis by (intro exI [of _ 0]) simp
  next
    case (Inr h)
    let ?n = "\<lceil>real (length vs) / real (nat B)\<rceil>"
    let ?f = "\<lambda>i. py_slice vs (nat (int i * B)) (nat (min ((int i + 1) * B) (int (length vs))))"
    obtain wb rb where ub: "upsert_batches R h vs ns B [0..<nat ?n] wa = (wb, rb)"
      by (cases "upsert_batches R h vs ns B [0..<nat ?n] wa") auto
    from upsert_batches_calls [OF ub] obtain k where k: "k \<le> length [0..<nat ?n]"
      and ev: "events wb = events wa @ map (\<lambda>i. Upsert h (?f i) ns) (take k [0..<nat ?n])"
      and full: "rb = None \<longrightarrow> k = length [0..<nat ?n]" by blast
    have "upsert_calls (events wb) = upsert_calls (events w) @ map ?f (take k [0..<nat ?n])"
      using ev ca by simp
    also have "map ?f (take k [0..<nat ?n]) = take k (spec_batches vs (nat B))"
      by (simp only: take_map [symmetric] spec_batches_int [OF B])
    finally have cb: "upsert_calls (events wb)
                        = upsert_calls (events w) @ take k (spec_batches vs (nat B))" .
    have w1: "upsert_calls (events w1) = upsert_calls (events wb)"
      using run goc Inr ub num_batches_ceiling [OF B, of "length vs"]
      by (cases rb) (auto simp: upsert_data_body_def)
    have "k = length (spec_batches vs (nat B))"
      if "\<forall>hist b. r_upsert R hist h b ns = None"
    proof -
      have "rb = None" using upsert_batches_ok [of R h ns vs B "[0..<nat ?n]" wa] that ub by simp
      with full show ?thesis by (simp add: spec_batches_def)
    qed
    with cb w1 goc Inr show ?thesis by (intro exI [of _ k]) auto
  qed
qed

lemmas run_defs =
  example_remote_def example_model_def example_world_def example_source_def example_dest_def
  example_state_def
  py_in_def py_str_def emit_def say_def tell_def PineconeManager_def list_indexes_def
  open_index_def delete_index_def create_index_new_def create_index_def get_or_create_index_def
  py_slice_def num_batches_def upsert_data_body_def upsert_data_def describe_index_stats_def
  set_credentials_def connect_source_def connect_destination_def enumerate_namespaces_def
  prepare_migration_def transfer_page_def transfer_namespace_def ns_label_def
  migrate_transfer_def migrate_def is_space_def strip_def clean_key_def main_def
  attempted_records_def attempted_namespaces_def example_source_mgr_def Let_def

section \<open>Namespace enumeration\<close>

text \<open>
  Claim C3. For statistics that are not \<open>None\<close>, the namespace list of \<open>migrate\<close>
  is the list of keys of the per-namespace mapping; when that mapping is empty or
  absent, the list is \<open>[""]\<close> if \<open>total_vector_count\<close> is positive and empty
  otherwise (in particular when the total is 0).
\<close>

theorem enumerate_namespaces_keys:
  "enumerate_namespaces (Some s)
     = Inr (let keys = (case namespaces s of None \<Rightarrow> [] | Some d \<Rightarrow> map fst d) in
            if keys \<noteq> [] then keys
            else if total_vector_count s > 0 then [''''] else [])"
  by (auto simp: enumerate_namespaces_def Let_def split: option.splits)

section \<open>The copy loop\<close>




text \<open>
  Claim C2. When the source index object has no \<open>list\<close> and the first three phases
  have led to a namespace list that is not empty, \<open>migrate\<close> enters the first
  namespace, prints the error about listing ids, enters no other namespace and makes no
  remote call, prints the completion summary with a total of 0, and returns (the process
  is not ended by an exit or an exception).
\<close>

theorem migrate_listing_unsupported:
  assumes "connect_source R sk sn w = (w1, Inr (smgr, sdim, smet, src))"
    and "connect_destination fuel R dk dn sdim smet w1 = Some (w2, Inr dmgr)"
    and "prepare_migration R smgr w2 = (w3, m3, Inr (ns # rest))"
    and "\<not> has_list R src"
  shows "migrate fuel R sk sn dk dn w
           = Some (say (TotalMigrated 0) (say MigrationComplete (say ListingUnsupported
                (say (ProcessingNamespace (ns_label ns)) (say StartingDataCopy w3)))), Returned)"
  using assms
  by (simp add: migrate_def migrate_transfer_def transfer_namespace_def tell_def Let_def)

theorem migrate_listing_unsupported_witness:
  "\<not> has_list (example_remote None None False 1536 True) example_source
   \<and> map_option (\<lambda>(w, out). (drop 16 (events w), out))
        (migrate 0 (example_remote None None False 1536 True) ''ks'' ''src'' ''kd'' ''dst''
           example_world)
     = Some ([Print StartingDataCopy, Print (ProcessingNamespace ''A''), Print ListingUnsupported,
              Print MigrationComplete, Print (TotalMigrated 0)], Returned)"
proof -
  let ?R = "example_remote None None False 1536 True"
  let ?w1 = "fst (connect_source ?R ''ks'' ''src'' example_world)"
  let ?w2 = "fst (the (connect_destination 0 ?R ''kd'' ''dst'' 1536 ''cosine'' ?w1))"
  let ?w3 = "fst (prepare_migration ?R example_source_mgr ?w2)"
  have cs: "connect_source ?R ''ks'' ''src'' example_world
              = (?w1, Inr (example_source_mgr, 1536, ''cosine'', example_source))"
    by (simp add: run_defs)
  have cd: "connect_destination 0 ?R ''kd'' ''dst'' 1536 ''cosine'' ?w1
              = Some (?w2, Inr example_dest)"
    by (simp add: run_defs)
  have pm: "prepare_migration ?R example_source_mgr ?w2
              = (?w3, example_source_mgr, Inr [''A'', ''B''])"
    by (simp add: run_defs)
  have nl: "\<not> has_list ?R example_source"
    by (simp add: example_remote_def)
  show ?thesis
    using migrate_listing_unsupported [OF cs cd pm nl] nl
    by (simp add: run_defs)
qed

text \<open>
  Claim C10. \<open>upsert_data\<close> returns normally whatever the remote upsert does, and the
  page loop then adds the length of the batch to the total: for every page that is
  fetched and gives a batch that is not empty, the step for that page raises nothing and
  the total grows by the length of the batch, for every behaviour of the destination.
\<close>

theorem transfer_page_counts_failed_upsert:
  assumes "page \<noteq> []"
    and "r_fetch R (events (t_world st)) src page ns = Inr resp"
    and "batch_of (case fr_vectors resp of None \<Rightarrow> [] | Some d \<Rightarrow> d) = Inr batch"
    and "batch \<noteq> []"
  shows "snd (transfer_page R src ns page st) = None
       \<and> total_migrated (fst (transfer_page R src ns page st)) = total_migrated st + length batch"
  using assms by (simp add: transfer_page_def Let_def split: prod.splits)

text \<open>In the example every upsert is rejected: the error is printed and the record is
  counted.\<close>

theorem transfer_page_counts_failed_upsert_witness:
  "(let R = example_remote None (Some (OtherException ''rejected'')) True 1536 True;
        r = transfer_page R example_source ''A'' [''a1''] example_state in
    snd r = None \<and> total_migrated (fst r) = 1
    \<and> Print (ErrorUpserting (OtherException ''rejected'')) \<in> set (events (t_world (fst r))))"
proof -
  let ?R = "example_remote None (Some (OtherException ''rejected'')) True 1536 True"
  have f: "r_fetch ?R (events (t_world example_state)) example_source [''a1''] ''A''
             = Inr \<lparr>fr_vectors = Some [(''a1'', \<lparr>vd_values = Some 1, vd_metadata = None\<rparr>)]\<rparr>"
    by (simp add: example_remote_def)
  have b: "batch_of (case fr_vectors \<lparr>fr_vectors = Some [(''a1'', \<lparr>vd_values = Some (1::nat), vd_metadata = None\<rparr>)]\<rparr>
                       of None \<Rightarrow> [] | Some d \<Rightarrow> d)
             = Inr [\<lparr>vec_id = ''a1'', vec_values = 1, vec_metadata = []\<rparr>]"
    by simp
  show ?thesis
    using transfer_page_counts_failed_upsert [OF _ f b]
    by (simp add: run_defs)
qed

section \<open>Setup, exit codes and crashes\<close>

text \<open>
  Claim C5. When the first phase has succeeded with source dimension \<open>sdim\<close>, the
  destination account lists an index with the destination name, and describing that
  index succeeds with another dimension, \<open>migrate\<close> ends with \<open>sys.exit(1)\<close>
  right after printing the mismatch; the run has listed no ids, fetched nothing and
  issued no upsert.
\<close>

theorem migrate_dimension_mismatch:
  assumes cs: "connect_source R sk sn w = (w1, Inr (smgr, sdim, smet, src))"
    and li: "r_list_indexes R (events w1 @ [Print (ConnectingDestination dn)]) (Some dk) = Inr idxs"
    and ex: "dn \<in> set (map im_name idxs)"
    and de: "r_describe_index R
               (events w1 @ [Print (ConnectingDestination dn), ListIndexes (Some dk),
                             Print (DestinationExists dn)]) (Some dk) dn = Inr d"
    and mm: "im_dimension d \<noteq> sdim"
  shows "\<exists>w'. migrate fuel R sk sn dk dn w = Some (w', SysExit 1)
            \<and> filter record_call (events w') = filter record_call (events w)
            \<and> last (events w') = Print (MismatchDest (im_dimension d))"
proof -
  have "\<exists>w'. migrate fuel R sk sn dk dn w = Some (w', SysExit 1)
           \<and> last (events w') = Print (MismatchDest (im_dimension d))"
    using assms
    by (simp add: migrate_def connect_destination_def list_indexes_def Let_def
          PineconeManager_def set_credentials_def say_def emit_def)
  then obtain w' where run: "migrate fuel R sk sn dk dn w = Some (w', SysExit 1)"
    and l: "last (events w') = Print (MismatchDest (im_dimension d))" by blast
  have "grows setup_event w w'" using run by (rule migrate_setup_grows) simp
  then show ?thesis using run l grows_setup_record_calls by blast
qed

text \<open>In the example the source has dimension 1536 and the destination 768.\<close>

theorem migrate_dimension_mismatch_witness:
  "map_option (\<lambda>(w, out). (filter record_call (events w), last (events w), out))
     (migrate 0 (example_remote None None True 768 True) ''ks'' ''src'' ''kd'' ''dst'' example_world)
   = Some ([], Print (MismatchDest 768), SysExit 1)"
proof -
  let ?R = "example_remote None None True 768 True"
  let ?w1 = "fst (connect_source ?R ''ks'' ''src'' example_world)"
  have cs: "connect_source ?R ''ks'' ''src'' example_world
              = (?w1, Inr (example_source_mgr, 1536, ''cosine'', example_source))"
    by (simp add: run_defs)
  have li: "r_list_indexes ?R (events ?w1 @ [Print (ConnectingDestination ''dst'')]) (Some ''kd'')
              = Inr [example_model ''dst'' 768]"
    by (simp add: example_remote_def)
  have ex: "''dst'' \<in> set (map im_name [example_model ''dst'' 768])"
    by (simp add: example_model_def)
  have de: "r_describe_index ?R
              (events ?w1 @ [Print (ConnectingDestination ''dst''), ListIndexes (Some ''kd''),
                             Print (DestinationExists ''dst'')]) (Some ''kd'') ''dst''
              = Inr (example_model ''dst'' 768)"
    by (simp add: example_remote_def)
  have mm: "im_dimension (example_model ''dst'' 768) \<noteq> 1536"
    by (simp add: example_model_def)
  from migrate_dimension_mismatch [OF cs li ex de mm, of 0]
  obtain w' where "migrate 0 ?R ''ks'' ''src'' ''kd'' ''dst'' example_world = Some (w', SysExit 1)"
    and "filter record_call (events w') = filter record_call (events example_world)"
    and "last (events w') = Print (MismatchDest (im_dimension (example_model ''dst'' 768)))"
    by blast
  then show ?thesis by (simp add: example_world_def example_model_def)
qed

text \<open>
  Claim C7. For every run of \<open>main\<close> that ends: if it ends with \<open>sys.exit(c)\<close>
  then \<open>c = 1\<close> and the last line printed is that of one of the five fatal
  conditions of the setup (missing credentials, missing source name in interactive
  mode, source index not found, failure to read the source configuration, dimension
  mismatch); and once the copy loop has been entered the run ends by returning from
  \<open>main\<close> (exit code 0), whatever was raised inside the namespaces.
\<close>

theorem main_exit_codes:
  assumes run: "main fuel R argv stdin w = Some (w', out)"
  shows "(\<forall>c. out = SysExit c \<longrightarrow>
            c = 1 \<and> (\<exists>m. fatal_message m \<and> events w' \<noteq> [] \<and> last (events w') = Print m))
       \<and> (Print StartingDataCopy \<in> set (drop (length (events w)) (events w')) \<longrightarrow> out = Returned)"
proof -
  let ?sk = "clean_key (environ w ''PINECONE_SOURCE_API_KEY'')"
  let ?dk = "clean_key (environ w ''PINECONE_DEST_API_KEY'')"
  let ?w1 = "say PromptSource (say EnteringInteractive w)"
  have g1: "grows setup_event w ?w1" by (simp add: grows_say)
  show ?thesis
  proof (cases "?sk = [] \<or> ?dk = []")
    case True
    then have "w' = say EnsureKeysSet (say MissingEnvironment w)" "out = SysExit 1"
      using run by (auto simp: main_def Let_def)
    then show ?thesis
      using early_exit_codes [of w "say MissingEnvironment w" EnsureKeysSet]
      by (simp add: grows_say)
  next
    case keys: False
    show ?thesis
    proof (cases "length argv < 2")
      case False
      then have "migrate fuel R ?sk (argv ! 1) ?dk
                   (if length argv > 2 then argv ! 2 else argv ! 1) w = Some (w', out)"
        using run keys by (simp add: main_def Let_def)
      then show ?thesis by (rule migrate_exit_codes) simp
    next
      case True
      show ?thesis
      proof (cases stdin)
        case Nil
        then have "w' = ?w1" "out = Uncaught EOFError"
          using run keys True by (auto simp: main_def Let_def)
        then show ?thesis using g1 grows_setup_not_started by auto
      next
        case (Cons line1 stdin1)
        show ?thesis
        proof (cases "strip line1 = []")
          case e: True
          then have "w' = say SourceNameRequired ?w1" "out = SysExit 1"
            using run keys True Cons by (auto simp: main_def Let_def)
          then show ?thesis
            using early_exit_codes [OF g1, of SourceNameRequired] by simp
        next
          case ne: False
          let ?w2 = "say (PromptDestination (strip line1)) ?w1"
          have g2: "grows setup_event w ?w2" by (simp add: grows_say)
          show ?thesis
          proof (cases stdin1)
            case Nil
            then have "w' = ?w2" "out = Uncaught EOFError"
              using run keys True Cons ne by (auto simp: main_def Let_def)
            then show ?thesis using g2 grows_setup_not_started by auto
          next
            case c2: (Cons line2 stdin2)
            then have "migrate fuel R ?sk (strip line1) ?dk
                         (if strip line2 = [] then strip line1 else strip line2) ?w2
                       = Some (w', out)"
              using run keys True Cons ne by (simp add: main_def Let_def)
            then show ?thesis using g2 by (rule migrate_exit_codes)
          qed
        qed
      qed
    qed
  qed
qed

text \<open>In the example, a run in which the namespace \<open>A\<close> fails returns normally,
  and a run with a dimension mismatch exits with 1.\<close>

theorem main_exit_codes_witness:
  "(\<exists>w'. main 0 (example_remote (Some (OtherException ''timeout'')) None True 1536 True)
            [''migrate'', ''src'', ''dst''] [] example_world = Some (w', Returned)
         \<and> Print (ErrorMigratingNamespace ''A'' (OtherException ''timeout'')) \<in> set (events w'))
   \<and> (\<exists>w' m. main 0 (example_remote None None True 768 True)
              [''migrate'', ''src'', ''dst''] [] example_world = Some (w', SysExit 1)
           \<and> fatal_message m \<and> last (events w') = Print m)"
proof -
  let ?r = "main 0 (example_remote (Some (OtherException ''timeout'')) None True 1536 True)
              [''migrate'', ''src'', ''dst''] [] example_world"
  let ?q = "main 0 (example_remote None None True 768 True)
              [''migrate'', ''src'', ''dst''] [] example_world"
  have "\<exists>w' out. ?r = Some (w', out)
          \<and> Print StartingDataCopy \<in> set (drop (length (events example_world)) (events w'))
          \<and> Print (ErrorMigratingNamespace ''A'' (OtherException ''timeout'')) \<in> set (events w')"
    by (simp add: run_defs)
  then obtain w1 o1 where r: "?r = Some (w1, o1)"
    and s: "Print StartingDataCopy \<in> set (drop (length (events example_world)) (events w1))"
    and e: "Print (ErrorMigratingNamespace ''A'' (OtherException ''timeout'')) \<in> set (events w1)"
    by blast
  have "o1 = Returned"
    using main_exit_codes [OF r] s by blast
  with r e have first: "\<exists>w'. ?r = Some (w', Returned)
      \<and> Print (ErrorMigratingNamespace ''A'' (OtherException ''timeout'')) \<in> set (events w')"
    by blast
  have "\<exists>w'. ?q = Some (w', SysExit 1)"
    by (simp add: run_defs)
  then obtain w2 where q: "?q = Some (w2, SysExit 1)" by blast
  from main_exit_codes [OF q] obtain m where "fatal_message m" "last (events w2) = Print m"
    by blast
  with q have "\<exists>w' m. ?q = Some (w', SysExit 1) \<and> fatal_message m \<and> last (events w') = Print m"
    by blast
  with first show ?thesis by blast
qed

text \<open>
  Claim C8. When the first two phases have succeeded and \<open>describe_index_stats\<close> of
  the source manager returns \<open>None\<close>, \<open>migrate\<close> ends with an uncaught
  \<open>AttributeError\<close> (not with \<open>sys.exit\<close>), in the state that call left:
  nothing more is printed and the copy loop is not entered.
\<close>

theorem migrate_stats_none_crashes:
  assumes "connect_source R sk sn w = (w1, Inr (smgr, sdim, smet, src))"
    and "connect_destination fuel R dk dn sdim smet w1 = Some (w2, Inr dmgr)"
    and "describe_index_stats R smgr (say PreparingMigration w2) = (w3, m3, None)"
  shows "migrate fuel R sk sn dk dn w = Some (w3, Uncaught AttributeError)
       \<and> filter record_call (events w3) = filter record_call (events w)"
proof -
  have run: "migrate fuel R sk sn dk dn w = Some (w3, Uncaught AttributeError)"
    using assms by (simp add: migrate_def prepare_migration_def enumerate_namespaces_def)
  have "grows setup_event w w3" using run by (rule migrate_setup_grows) simp
  then show ?thesis using run grows_setup_record_calls by blast
qed

theorem migrate_stats_none_crashes_witness:
  "map_option (\<lambda>(w, out). (filter record_call (events w), last (events w), out))
     (migrate 0 (example_remote None None True 1536 False) ''ks'' ''src'' ''kd'' ''dst'' example_world)
   = Some ([], Print (ErrorDescribingStats (OtherException ''unavailable'')),
           Uncaught AttributeError)"
proof -
  let ?R = "example_remote None None True 1536 False"
  let ?w1 = "fst (connect_source ?R ''ks'' ''src'' example_world)"
  let ?w2 = "fst (the (connect_destination 0 ?R ''kd'' ''dst'' 1536 ''cosine'' ?w1))"
  let ?w3 = "fst (describe_index_stats ?R example_source_mgr (say PreparingMigration ?w2))"
  have cs: "connect_source ?R ''ks'' ''src'' example_world
              = (?w1, Inr (example_source_mgr, 1536, ''cosine'', example_source))"
    by (simp add: run_defs)
  have cd: "connect_destination 0 ?R ''kd'' ''dst'' 1536 ''cosine'' ?w1
              = Some (?w2, Inr example_dest)"
    by (simp add: run_defs)
  have ds: "describe_index_stats ?R example_source_mgr (say PreparingMigration ?w2)
              = (?w3, example_source_mgr, None)"
    by (simp add: run_defs)
  have l: "last (events ?w3) = Print (ErrorDescribingStats (OtherException ''unavailable''))"
    by (simp add: run_defs)
  show ?thesis
    using migrate_stats_none_crashes [OF cs cd ds] l
    by (simp add: example_world_def)
qed

section \<open>Bindings of the two managers\<close>

text \<open>
  Claim C9. In every run of \<open>migrate\<close> that ends, each reading of statistics, each
  listing of ids and each fetch is made on the index object of the source key and source
  name, also after \<open>os.environ\<close> has been switched to the destination (and each
  upsert on that of the destination key and name). The operations of a manager do not
  read \<open>os.environ\<close>: with another environment they do the same and leave it as it
  is.
\<close>

theorem migrate_source_binding:
  assumes "migrate fuel R sk sn dk dn w = Some (w', out)"
  shows "(\<exists>xs. events w' = events w @ xs
            \<and> list_all (targets \<lparr>ih_api_key = Some sk, ih_name = Some sn\<rparr>
                                 \<lparr>ih_api_key = Some dk, ih_name = Some dn\<rparr>) xs)
       \<and> (\<forall>m w0 env. describe_index_stats R m (w0\<lparr>environ := env\<rparr>)
             = (case describe_index_stats R m w0 of (w1, r) \<Rightarrow> (w1\<lparr>environ := env\<rparr>, r)))
       \<and> (\<forall>m w0 env. list_indexes R m (w0\<lparr>environ := env\<rparr>)
             = (case list_indexes R m w0 of (w1, r) \<Rightarrow> (w1\<lparr>environ := env\<rparr>, r)))
       \<and> (\<forall>m w0 env. get_or_create_index R m (w0\<lparr>environ := env\<rparr>)
             = (case get_or_create_index R m w0 of (w1, r) \<Rightarrow> (w1\<lparr>environ := env\<rparr>, r)))"
  using migrate_targets [OF assms]
  by (simp add: grows_def describe_index_stats_environ list_indexes_environ
        get_or_create_index_environ)

theorem migrate_source_binding_witness:
  "map_option (\<lambda>(w, out). (filter record_call (events w), out))
     (migrate 0 (example_remote None None True 1536 True) ''ks'' ''src'' ''kd'' ''dst'' example_world)
   = Some ([ListIds example_source ''A'',
            Fetch example_source [''a1''] ''A'',
            Upsert (handle_of example_dest) [\<lparr>vec_id = ''a1'', vec_values = 1, vec_metadata = []\<rparr>] ''A'',
            Fetch example_source [''a2''] ''A'',
            Upsert (handle_of example_dest) [\<lparr>vec_id = ''a2'', vec_values = 2, vec_metadata = []\<rparr>] ''A'',
            ListIds example_source ''B'',
            Fetch example_source [''b1''] ''B'',
            Upsert (handle_of example_dest) [\<lparr>vec_id = ''b1'', vec_values = 1, vec_metadata = []\<rparr>] ''B''],
           Returned)"
proof -
  let ?R = "example_remote None None True 1536 True"
  let ?r = "migrate 0 ?R ''ks'' ''src'' ''kd'' ''dst'' example_world"
  have r: "?r = Some (fst (the ?r), Returned)"
    by (simp add: run_defs)
  show ?thesis
    using migrate_source_binding [OF r]
    by (simp add: run_defs handle_of_def)
qed

section \<open>delete_index\<close>

text \<open>
  Claim C6 does not hold of the code. \<open>list_indexes\<close> reads \<open>idx['name']\<close> from
  each element of \<open>self.pc.list_indexes()\<close>, so the elements are index
  descriptions; \<open>delete_index\<close> tests the configured name, a string, for membership
  among those descriptions, which never holds. In the example the destination account
  has the index \<open>dst\<close>, \<open>list_indexes\<close> returns its name, and
  \<open>delete_index\<close> prints that it does not exist, issues no delete and keeps the
  cached connection.
\<close>

theorem delete_index_present_not_deleted:
  "(let R = example_remote None None True 1536 True;
        m = example_dest\<lparr>index := Some (handle_of example_dest)\<rparr> in
    r_list_indexes R [] (api_key m) = Inr [example_model ''dst'' 1536]
    \<and> snd (list_indexes R m example_world) = Inr [''dst'']
    \<and> index_name m = Some ''dst''
    \<and> delete_index R m example_world
        = (example_world\<lparr>events := [ListIndexes (Some ''kd''),
                                      Print (IndexDoesNotExist (Some ''dst''))]\<rparr>, m, None))"
  by (simp add: run_defs handle_of_def)

section \<open>Batches of upsert_data\<close>



end
